theory Spec2Isabelle
  imports
    Main
    "HOL-Library.Word"
    "HOL-Library.AList"
    "HOL-Library.List_Lexorder"
    "HOL-Library.Char_ord"
begin

section \<open>Common vocabulary\<close>

text \<open>
  Keys are byte strings. A Go value of type \<^verbatim>\<open>[]byte\<close> may also be the nil slice, which
  \<^verbatim>\<open>bytes.Equal\<close> does not tell apart from the empty one, so values are optional byte
  lists: \<open>None\<close> is nil. Go compares strings bytewise, which is the lexicographic order
  of \<open>char list\<close> over the character codes.
\<close>

type_synonym bytes = "8 word list"
type_synonym slice = "8 word list option"

definition slice_bytes :: "slice \<Rightarrow> bytes" where
  "slice_bytes v = (case v of None \<Rightarrow> [] | Some b \<Rightarrow> b)"

definition bytes_Equal :: "slice \<Rightarrow> slice \<Rightarrow> bool" where
  "bytes_Equal a b = (slice_bytes a = slice_bytes b)"

text \<open>
  The error values the table code tests for by identity, the two classes it tests for with
  a predicate (\<^verbatim>\<open>os.IsNotExist\<close>, a cancelled context), the error of a store that
  has been closed, and every other error, carried opaquely.
\<close>

datatype error =
    ErrNotFound
  | ErrImmutableSegment
  | ErrInvalidSegmentType
  | ErrSegmentTypeUnknown
  | ErrNotExist
  | ErrCanceled
  | ErrClosed
  | ErrOther string

definition os_IsNotExist :: "error \<Rightarrow> bool" where
  "os_IsNotExist e = (e = ErrNotExist)"

text \<open>
  A call either returns, waits for ever on the semaphore (nobody else runs in this
  sequential model, so a permit that is not free never becomes free), or panics.
\<close>

datatype 'a outcome = Returns 'a | Blocks | Panics

definition andThen :: "'a outcome \<Rightarrow> ('a \<Rightarrow> 'b outcome) \<Rightarrow> 'b outcome" where
  "andThen m f = (case m of Returns x \<Rightarrow> f x | Blocks \<Rightarrow> Blocks | Panics \<Rightarrow> Panics)"

text \<open>
  A context is modelled by the one thing the code can observe of it: whether its
  \<^verbatim>\<open>Done\<close> channel ever closes. \<^verbatim>\<open>context.Background()\<close> and
  \<^verbatim>\<open>context.TODO()\<close> never do.
\<close>

type_synonym Context = bool

definition context_Background :: Context where
  "context_Background = False"

definition context_TODO :: Context where
  "context_TODO = False"

section \<open>Segments\<close>

text \<open>
  The \<^verbatim>\<open>Segment\<close> interface, as the mock package implements it: one function value
  per method. \<open>OpenFunc\<close> is the optional \<^verbatim>\<open>Open() error\<close> capability that
  \<^verbatim>\<open>SegmentSet.Acquire\<close> probes for: \<open>None\<close> when the segment has no such method,
  otherwise what the call returns. Segments of the immutable tier are read-only, so a copy
  of the value stands for the pointer. What \<^verbatim>\<open>Open\<close>, \<^verbatim>\<open>Close\<close> and
  \<^verbatim>\<open>Purge\<close> do to a segment's file handle is outside the state modelled here.
\<close>

record Segment =
  NameFunc :: string
  PathFunc :: string
  HasFunc :: "bytes \<Rightarrow> bool \<times> error option"
  GetFunc :: "bytes \<Rightarrow> slice \<times> error option"
  OpenFunc :: "error option option"

text \<open>
  Modelled from the spec: \<^verbatim>\<open>LDBSegment\<close>, the mutable segment, whose source file is not
  among the sources. The spec gives it a name, a path, and the contract of a key/value
  store: \<^verbatim>\<open>Put(k,v); Get(k) == v\<close> and \<^verbatim>\<open>Delete(k); Get(k)\<close> returns not-found.
  The name and the path are fixed when the segment is made. The store is open between
  \<^verbatim>\<open>Open\<close> and \<^verbatim>\<open>Close\<close>; outside, every call is refused with the error of a
  closed store and changes nothing. \<open>ldb_writes\<close> counts the writes that have reached
  the store: it is what tells a write that stores the bytes already there from no write.
  Other I/O failures of an open segment are not modelled.
\<close>

record LDBSegment =
  ldb_name :: string
  ldb_path :: string
  ldb_data :: "bytes \<Rightarrow> bytes option"
  ldb_open :: bool
  ldb_writes :: nat

definition NewLDBSegment :: "string \<Rightarrow> string \<Rightarrow> LDBSegment" where
  "NewLDBSegment name path =
     \<lparr>ldb_name = name, ldb_path = path, ldb_data = (\<lambda>k. None), ldb_open = False, ldb_writes = 0\<rparr>"

definition LDBSegment_Close :: "LDBSegment \<Rightarrow> LDBSegment" where
  "LDBSegment_Close s = s\<lparr>ldb_open := False\<rparr>"

definition LDBSegment_Has :: "LDBSegment \<Rightarrow> bytes \<Rightarrow> bool \<times> error option" where
  "LDBSegment_Has s key =
     (if ldb_open s then (ldb_data s key \<noteq> None, None) else (False, Some ErrClosed))"

definition LDBSegment_Get :: "LDBSegment \<Rightarrow> bytes \<Rightarrow> slice \<times> error option" where
  "LDBSegment_Get s key =
     (if ldb_open s
      then (case ldb_data s key of None \<Rightarrow> (None, Some ErrNotFound) | Some v \<Rightarrow> (Some v, None))
      else (None, Some ErrClosed))"

definition LDBSegment_Put :: "LDBSegment \<Rightarrow> bytes \<Rightarrow> slice \<Rightarrow> error option \<times> LDBSegment" where
  "LDBSegment_Put s key v =
     (if ldb_open s
      then (None, s\<lparr>ldb_data := (ldb_data s)(key := Some (slice_bytes v)),
                     ldb_writes := Suc (ldb_writes s)\<rparr>)
      else (Some ErrClosed, s))"

definition LDBSegment_Delete :: "LDBSegment \<Rightarrow> bytes \<Rightarrow> error option \<times> LDBSegment" where
  "LDBSegment_Delete s key =
     (if ldb_open s
      then (None, s\<lparr>ldb_data := (ldb_data s)(key := None), ldb_writes := Suc (ldb_writes s)\<rparr>)
      else (Some ErrClosed, s))"

section \<open>SegmentSet\<close>

text \<open>
  The LRU cache of the hashicorp library, as a list with the most recently used entry
  first. \<^verbatim>\<open>Get\<close> moves a hit to the front; \<^verbatim>\<open>Add\<close> replaces and moves an existing
  key, and otherwise pushes the entry and drops the oldest one once the list is longer
  than the capacity; \<^verbatim>\<open>Remove\<close> deletes the key. The eviction callback only closes or
  purges a file handle.
\<close>

definition lru_Get :: "string \<Rightarrow> (string \<times> 'v) list \<Rightarrow> 'v option \<times> (string \<times> 'v) list" where
  "lru_Get k c =
     (case map_of c k of
        None \<Rightarrow> (None, c)
      | Some v \<Rightarrow> (Some v, (k, v) # AList.delete k c))"

definition lru_Add :: "nat \<Rightarrow> string \<Rightarrow> 'v \<Rightarrow> (string \<times> 'v) list \<Rightarrow> (string \<times> 'v) list" where
  "lru_Add cap k v c =
     (case map_of c k of
        Some old \<Rightarrow> (k, v) # AList.delete k c
      | None \<Rightarrow> (if cap < Suc (length c) then butlast ((k, v) # c) else (k, v) # c))"

definition lru_Remove :: "string \<Rightarrow> (string \<times> 'v) list \<Rightarrow> (string \<times> 'v) list" where
  "lru_Remove k c = AList.delete k c"

text \<open>
  \<open>segments\<close> is the Go map of all known immutable segments, as an association list
  with one entry per key. The weighted semaphore is its capacity and the number of permits
  out.
\<close>

record SegmentSet =
  segments :: "(string \<times> Segment) list"
  semaphore_size :: nat
  semaphore_cur :: nat
  cache :: "(string \<times> Segment) list"
  cache_size :: nat

definition NewSegmentSet :: "int \<Rightarrow> SegmentSet" where
  "NewSegmentSet maxOpenCount =
     (let m = (if maxOpenCount < 1 then 1 else maxOpenCount) in
      \<lparr>segments = [], semaphore_size = nat m, semaphore_cur = 0, cache = [], cache_size = nat m\<rparr>)"

text \<open>
  \<^verbatim>\<open>Weighted.Acquire(ctx, 1)\<close>: a free permit is taken at once; with none free the call
  waits until the context is done and returns its error, or waits for ever.
  \<^verbatim>\<open>Weighted.Release(1)\<close> panics when no permit is out.
\<close>

definition semaphore_Acquire :: "Context \<Rightarrow> SegmentSet \<Rightarrow> (error option \<times> SegmentSet) outcome" where
  "semaphore_Acquire ctx ss =
     (if semaphore_cur ss < semaphore_size ss
      then Returns (None, ss\<lparr>semaphore_cur := semaphore_cur ss + 1\<rparr>)
      else if ctx then Returns (Some ErrCanceled, ss)
      else Blocks)"

definition semaphore_Release :: "SegmentSet \<Rightarrow> SegmentSet outcome" where
  "semaphore_Release ss =
     (if semaphore_cur ss = 0 then Panics
      else Returns (ss\<lparr>semaphore_cur := semaphore_cur ss - 1\<rparr>))"

definition Len :: "SegmentSet \<Rightarrow> nat" where
  "Len ss = length (segments ss)"

definition Add :: "Segment \<Rightarrow> SegmentSet \<Rightarrow> SegmentSet" where
  "Add s ss = ss\<lparr>segments := AList.update (NameFunc s) s (segments ss)\<rparr>"

definition Contains :: "string \<Rightarrow> SegmentSet \<Rightarrow> bool" where
  "Contains name ss = (map_of (segments ss) name \<noteq> None)"

definition Remove :: "Context \<Rightarrow> string \<Rightarrow> SegmentSet \<Rightarrow> SegmentSet outcome" where
  "Remove ctx name ss =
     (let ss1 = ss\<lparr>segments := AList.delete name (segments ss)\<rparr> in
      andThen (semaphore_Acquire ctx ss1) (\<lambda>(err, ss2).
        case err of
          Some e \<Rightarrow> Returns ss2
        | None \<Rightarrow> semaphore_Release (ss2\<lparr>cache := lru_Remove name (cache ss2)\<rparr>)))"

definition Acquire :: "string \<Rightarrow> SegmentSet \<Rightarrow> ((Segment option \<times> error option) \<times> SegmentSet) outcome" where
  "Acquire name ss =
     andThen (semaphore_Acquire context_Background ss) (\<lambda>(ignored, ss1).
       case lru_Get name (cache ss1) of
         (Some s, c) \<Rightarrow> Returns ((Some s, None), ss1\<lparr>cache := c\<rparr>)
       | (None, c) \<Rightarrow>
           (case map_of (segments ss1) name of
              None \<Rightarrow> andThen (semaphore_Release ss1) (\<lambda>ss2. Returns ((None, None), ss2))
            | Some s \<Rightarrow>
                (case OpenFunc s of
                   Some (Some err) \<Rightarrow>
                     andThen (semaphore_Release ss1) (\<lambda>ss2. Returns ((None, Some err), ss2))
                 | _ \<Rightarrow>
                     Returns ((Some s, None),
                       ss1\<lparr>cache := lru_Add (cache_size ss1) name s (cache ss1)\<rparr>))))"

definition Release :: "SegmentSet \<Rightarrow> SegmentSet outcome" where
  "Release ss = semaphore_Release ss"

definition SegmentSet_Close :: "SegmentSet \<Rightarrow> SegmentSet" where
  "SegmentSet_Close ss = ss\<lparr>segments := [], cache := []\<rparr>"

section \<open>Table\<close>

text \<open>
  The pluggable collaborators of a table, one function value per interface method, as in
  the mock package. A Go result pair (value, error) is a sum. \<^verbatim>\<open>CompactSegment\<close> is
  handed the mutable segment by pointer: of what it does to the object, the second
  component of its result keeps whether it has closed it (the name and the path are fixed,
  and a compactor reads the data). \<^verbatim>\<open>UncompactSegment\<close> is handed whatever
  \<^verbatim>\<open>Acquire\<close> returned, which may be the nil segment.
\<close>

record SegmentOpener =
  ListSegmentNamesFunc :: "string \<Rightarrow> string \<Rightarrow> error + string list"
  OpenSegmentFunc :: "string \<Rightarrow> string \<Rightarrow> string \<Rightarrow> error + Segment"

record SegmentCompactor =
  CompactSegmentFunc :: "Context \<Rightarrow> string \<Rightarrow> LDBSegment \<Rightarrow> (error + Segment) \<times> bool"
  UncompactSegmentFunc :: "Context \<Rightarrow> string \<Rightarrow> Segment option \<Rightarrow> error + LDBSegment"

text \<open>
  What the table asks of the operating system and of helpers that are not among the
  sources, taken as parameters: \<^verbatim>\<open>os.MkdirAll\<close>; \<^verbatim>\<open>SegmentFileType\<close> and the type
  tag \<^verbatim>\<open>SegmentLDB1\<close> it is compared with; \<^verbatim>\<open>os.Stat\<close> followed by
  \<^verbatim>\<open>time.Since(fi.ModTime())\<close>, that is the stat error or the age of the file; and
  \<^verbatim>\<open>LDBSegment.Open\<close>, which fails or finds the contents stored under the path.
\<close>

record filesystem =
  MkdirAll :: "string \<Rightarrow> error option"
  SegmentFileType :: "string \<Rightarrow> string \<times> error option"
  SegmentLDB1 :: string
  Stat_Since_ModTime :: "string \<Rightarrow> error + int"
  LDBSegment_Open_at :: "string \<Rightarrow> error + (bytes \<Rightarrow> bytes option)"

definition LDBSegment_Open :: "filesystem \<Rightarrow> LDBSegment \<Rightarrow> error + LDBSegment" where
  "LDBSegment_Open F s =
     (case LDBSegment_Open_at F (ldb_path s) of
        Inl e \<Rightarrow> Inl e
      | Inr d \<Rightarrow> Inr (s\<lparr>ldb_data := d, ldb_open := True\<rparr>))"

text \<open>
  \<^verbatim>\<open>filepath.Join\<close> is taken without the cleaning of the joined path: a path is
  used only as an argument of the file system, which is a parameter.
\<close>

definition filepath_Join :: "string \<Rightarrow> string \<Rightarrow> string" where
  "filepath_Join dir name = dir @ ''/'' @ name"

text \<open>
  The table. \<open>ldbSegments\<close> is the Go map from names to \<^verbatim>\<open>*LDBSegment\<close>: the
  pointers are addresses into \<open>ldb_store\<close>, the store of all mutable segment objects
  ever made, since \<^verbatim>\<open>Put\<close>, \<^verbatim>\<open>Delete\<close> and the batches write through a pointer that
  compaction may meanwhile have taken out of the map. \<open>ldb_next\<close> is the next free
  address. The record stands for a table whose two maps exist, which is what
  \<^verbatim>\<open>Open\<close> makes of any table.
\<close>

record Table =
  active :: string
  ldbSegments :: "(string \<times> nat) list"
  segmentSet :: SegmentSet
  Name :: string
  Path :: string
  Partitioner :: "bytes \<Rightarrow> string"
  MinMutableSegmentCount :: int
  MinCompactionAge :: int
  MaxOpenSegmentCount :: int
  SegmentOpener :: SegmentOpener
  SegmentCompactor :: SegmentCompactor
  ldb_store :: "nat \<Rightarrow> LDBSegment"
  ldb_next :: nat

definition new_LDBSegment_object :: "LDBSegment \<Rightarrow> Table \<Rightarrow> nat \<times> Table" where
  "new_LDBSegment_object s t =
     (ldb_next t, t\<lparr>ldb_store := (ldb_store t)(ldb_next t := s), ldb_next := Suc (ldb_next t)\<rparr>)"

definition Table_Close :: "Table \<Rightarrow> Table" where
  "Table_Close t =
     t\<lparr>ldb_store := foldl (\<lambda>st e. st(snd e := LDBSegment_Close (st (snd e)))) (ldb_store t)
                      (ldbSegments t),
       segmentSet := SegmentSet_Close (segmentSet t)\<rparr>"

definition set_active_if_greater :: "string \<Rightarrow> Table \<Rightarrow> Table" where
  "set_active_if_greater name t = (if active t < name then t\<lparr>active := name\<rparr> else t)"

fun Open_loop :: "filesystem \<Rightarrow> string list \<Rightarrow> Table \<Rightarrow> error option \<times> Table" where
  "Open_loop F [] t = (None, t)"
| "Open_loop F (name # names) t =
     (let path = filepath_Join (Path t) name;
          typ = fst (SegmentFileType F path);
          err = snd (SegmentFileType F path) in
      if err = Some ErrInvalidSegmentType then Open_loop F names t
      else if (case err of None \<Rightarrow> False | Some e \<Rightarrow> \<not> os_IsNotExist e) then (err, t)
      else if typ = SegmentLDB1 F then
        (case LDBSegment_Open F (NewLDBSegment name path) of
           Inl e \<Rightarrow> (Some e, Table_Close t)
         | Inr s \<Rightarrow>
             Open_loop F names
               (set_active_if_greater name
                 ((snd (new_LDBSegment_object s t))
                    \<lparr>ldbSegments := AList.update name (ldb_next t) (ldbSegments t)\<rparr>)))
      else
        (case OpenSegmentFunc (SegmentOpener t) (Name t) name path of
           Inl e \<Rightarrow> if e = ErrSegmentTypeUnknown then Open_loop F names t else (Some e, t)
         | Inr segment \<Rightarrow>
             Open_loop F names
               (set_active_if_greater name (t\<lparr>segmentSet := Add segment (segmentSet t)\<rparr>))))"

definition Open :: "filesystem \<Rightarrow> Table \<Rightarrow> error option \<times> Table" where
  "Open F t =
     (let t0 = t\<lparr>ldbSegments := [], segmentSet := NewSegmentSet (MaxOpenSegmentCount t)\<rparr> in
      case MkdirAll F (Path t0) of
        Some e \<Rightarrow> (Some e, t0)
      | None \<Rightarrow>
          (case ListSegmentNamesFunc (SegmentOpener t0) (Path t0) (Name t0) of
             Inl e \<Rightarrow> (Some e, t0)
           | Inr names \<Rightarrow> Open_loop F names t0))"

definition ActiveSegmentName :: "Table \<Rightarrow> string" where
  "ActiveSegmentName t = active t"

definition SegmentPath :: "Table \<Rightarrow> string \<Rightarrow> string" where
  "SegmentPath t name = filepath_Join (Path t) name"

text \<open>What \<^verbatim>\<open>AcquireSegment\<close> hands out: a mutable segment by pointer, or an immutable one.\<close>

datatype acquired = Mutable nat | Immutable Segment

definition AcquireSegment :: "string \<Rightarrow> Table \<Rightarrow> ((acquired option \<times> error option) \<times> Table) outcome" where
  "AcquireSegment name t =
     (case map_of (ldbSegments t) name of
        Some p \<Rightarrow> Returns ((Some (Mutable p), None), t)
      | None \<Rightarrow>
          andThen (Acquire name (segmentSet t)) (\<lambda>(r, ss).
            Returns ((map_option Immutable (fst r), snd r), t\<lparr>segmentSet := ss\<rparr>)))"

definition ReleaseSegment :: "acquired \<Rightarrow> Table \<Rightarrow> Table outcome" where
  "ReleaseSegment s t =
     (case s of
        Mutable p \<Rightarrow> Returns t
      | Immutable seg \<Rightarrow>
          andThen (Release (segmentSet t)) (\<lambda>ss. Returns (t\<lparr>segmentSet := ss\<rparr>)))"

text \<open>
  \<^verbatim>\<open>sort.Slice\<close> by name over the values of the map. Go fixes neither the iteration
  order of a map nor the order of equal names; both play no part once the names differ.
\<close>

definition ldbSegmentSlice :: "Table \<Rightarrow> nat list" where
  "ldbSegmentSlice t = sort_key (\<lambda>p. ldb_name (ldb_store t p)) (map snd (ldbSegments t))"

definition CompactSegment :: "Context \<Rightarrow> nat \<Rightarrow> Table \<Rightarrow> (error + Segment) \<times> Table" where
  "CompactSegment ctx p t =
     (let r = CompactSegmentFunc (SegmentCompactor t) ctx (Name t) (ldb_store t p) in
      (fst r,
       if snd r then t\<lparr>ldb_store := (ldb_store t)(p := LDBSegment_Close (ldb_store t p))\<rparr> else t))"

fun compact_loop :: "filesystem \<Rightarrow> Context \<Rightarrow> nat list \<Rightarrow> Table \<Rightarrow> error option \<times> Table" where
  "compact_loop F ctx [] t = (None, t)"
| "compact_loop F ctx (p # ps) t =
     (let ldbSegment = ldb_store t p in
      case Stat_Since_ModTime F (ldb_path ldbSegment) of
        Inl err \<Rightarrow> (Some err, t)
      | Inr age \<Rightarrow>
          if age < MinCompactionAge t then compact_loop F ctx ps t
          else
            (case CompactSegment ctx p t of
               (Inl err, t1) \<Rightarrow> (Some err, t1)
             | (Inr newSegment, t1) \<Rightarrow>
                 compact_loop F ctx ps
                   (t1\<lparr>segmentSet := Add newSegment (segmentSet t1),
                       ldbSegments := AList.delete (ldb_name ldbSegment) (ldbSegments t1)\<rparr>)))"

text \<open>
  The slice expression \<^verbatim>\<open>ldbSegmentSlice[:len(ldbSegmentSlice)-t.MinMutableSegmentCount]\<close>
  panics when its upper bound exceeds the capacity, which is the length here: that is the
  case of a negative \<^verbatim>\<open>MinMutableSegmentCount\<close>.
\<close>

definition compact :: "filesystem \<Rightarrow> Context \<Rightarrow> Table \<Rightarrow> (error option \<times> Table) outcome" where
  "compact F ctx t =
     (let ldbSegmentSlice = ldbSegmentSlice t in
      if int (length ldbSegmentSlice) < MinMutableSegmentCount t then Returns (None, t)
      else if MinMutableSegmentCount t < 0 then Panics
      else Returns (compact_loop F ctx
             (take (nat (int (length ldbSegmentSlice) - MinMutableSegmentCount t)) ldbSegmentSlice) t))"

definition Compact :: "filesystem \<Rightarrow> Context \<Rightarrow> Table \<Rightarrow> (error option \<times> Table) outcome" where
  "Compact F ctx t = compact F ctx t"

definition uncompact :: "Context \<Rightarrow> string \<Rightarrow> Table \<Rightarrow> ((error + nat) \<times> Table) outcome" where
  "uncompact ctx name t =
     andThen (Acquire name (segmentSet t)) (\<lambda>(r, ss1).
       case snd r of
         Some err \<Rightarrow> Returns (Inl err, t\<lparr>segmentSet := ss1\<rparr>)
       | None \<Rightarrow>
           (case UncompactSegmentFunc (SegmentCompactor t) ctx (Name t) (fst r) of
              Inl err \<Rightarrow>
                andThen (Release ss1) (\<lambda>ss2. Returns (Inl err, t\<lparr>segmentSet := ss2\<rparr>))
            | Inr ldbSegment \<Rightarrow>
                (let t1 = snd (new_LDBSegment_object ldbSegment (t\<lparr>segmentSet := ss1\<rparr>));
                     t2 = t1\<lparr>ldbSegments := AList.update name (ldb_next t) (ldbSegments t1)\<rparr> in
                 andThen (Remove ctx name (segmentSet t2)) (\<lambda>ss3.
                   andThen (Release ss3) (\<lambda>ss4.
                     Returns (Inr (ldb_next t), t2\<lparr>segmentSet := ss4\<rparr>))))))"

definition CreateSegmentIfNotExists :: "filesystem \<Rightarrow> Context \<Rightarrow> string \<Rightarrow> Table \<Rightarrow> ((error + nat) \<times> Table) outcome" where
  "CreateSegmentIfNotExists F ctx name t =
     (case map_of (ldbSegments t) name of
        Some p \<Rightarrow> Returns (Inr p, t)
      | None \<Rightarrow>
          if Contains name (segmentSet t) then uncompact ctx name t
          else if name < active t then Returns (Inl ErrImmutableSegment, t)
          else
            (case LDBSegment_Open F (NewLDBSegment name (SegmentPath t name)) of
               Inl err \<Rightarrow> Returns (Inl err, t)
             | Inr ldbSegment \<Rightarrow>
                 (let t1 = snd (new_LDBSegment_object ldbSegment t);
                      t2 = t1\<lparr>ldbSegments := AList.update name (ldb_next t) (ldbSegments t1),
                               active := name\<rparr> in
                  andThen (compact F ctx t2) (\<lambda>(err, t3).
                    case err of
                      Some e \<Rightarrow> Returns (Inl e, t3)
                    | None \<Rightarrow> Returns (Inr (ldb_next t), t3)))))"

definition segment_Has :: "Table \<Rightarrow> acquired \<Rightarrow> bytes \<Rightarrow> bool \<times> error option" where
  "segment_Has t s key =
     (case s of
        Mutable p \<Rightarrow> LDBSegment_Has (ldb_store t p) key
      | Immutable seg \<Rightarrow> HasFunc seg key)"

definition segment_Get :: "Table \<Rightarrow> acquired \<Rightarrow> bytes \<Rightarrow> slice \<times> error option" where
  "segment_Get t s key =
     (case s of
        Mutable p \<Rightarrow> LDBSegment_Get (ldb_store t p) key
      | Immutable seg \<Rightarrow> GetFunc seg key)"

definition Has :: "bytes \<Rightarrow> Table \<Rightarrow> ((bool \<times> error option) \<times> Table) outcome" where
  "Has key t =
     andThen (AcquireSegment (Partitioner t key) t) (\<lambda>(r, t1).
       case snd r of
         Some err \<Rightarrow> Returns ((False, Some err), t1)
       | None \<Rightarrow>
           (case fst r of
              None \<Rightarrow> Returns ((False, Some ErrNotFound), t1)
            | Some s \<Rightarrow>
                andThen (ReleaseSegment s t1) (\<lambda>t2. Returns (segment_Has t1 s key, t2))))"

definition Get :: "bytes \<Rightarrow> Table \<Rightarrow> ((slice \<times> error option) \<times> Table) outcome" where
  "Get key t =
     andThen (AcquireSegment (Partitioner t key) t) (\<lambda>(r, t1).
       case snd r of
         Some err \<Rightarrow> Returns ((None, Some err), t1)
       | None \<Rightarrow>
           (case fst r of
              None \<Rightarrow> Returns ((None, None), t1)
            | Some s \<Rightarrow>
                andThen (ReleaseSegment s t1) (\<lambda>t2. Returns (segment_Get t1 s key, t2))))"

definition Put :: "filesystem \<Rightarrow> bytes \<Rightarrow> slice \<Rightarrow> Table \<Rightarrow> (error option \<times> Table) outcome" where
  "Put F key val t =
     andThen (Get key t) (\<lambda>(r, t1).
       if snd r \<noteq> None \<and> snd r \<noteq> Some ErrNotFound then Returns (snd r, t1)
       else if bytes_Equal (fst r) val then Returns (None, t1)
       else
         andThen (CreateSegmentIfNotExists F context_TODO (Partitioner t1 key) t1) (\<lambda>(s, t2).
           case s of
             Inl err \<Rightarrow> Returns (Some err, t2)
           | Inr p \<Rightarrow>
               Returns (fst (LDBSegment_Put (ldb_store t2 p) key val),
                 t2\<lparr>ldb_store := (ldb_store t2)(p := snd (LDBSegment_Put (ldb_store t2 p) key val))\<rparr>)))"

definition Delete :: "bytes \<Rightarrow> Table \<Rightarrow> (error option \<times> Table) outcome" where
  "Delete key t =
     andThen (AcquireSegment (Partitioner t key) t) (\<lambda>(r, t1).
       case snd r of
         Some err \<Rightarrow> Returns (Some err, t1)
       | None \<Rightarrow>
           (case fst r of
              None \<Rightarrow> Returns (None, t1)
            | Some s \<Rightarrow>
                (case s of
                   Mutable p \<Rightarrow>
                     andThen (ReleaseSegment s
                         (t1\<lparr>ldb_store :=
                              (ldb_store t1)(p := snd (LDBSegment_Delete (ldb_store t1 p) key))\<rparr>))
                       (\<lambda>t2. Returns (fst (LDBSegment_Delete (ldb_store t1 p) key), t2))
                 | Immutable seg \<Rightarrow>
                     andThen (ReleaseSegment s t1) (\<lambda>t2. Returns (Some ErrImmutableSegment, t2)))))"

section \<open>Batches\<close>

text \<open>
  Modelled from the spec: \<^verbatim>\<open>ldbSegmentBatch\<close>, the sub-batch of one mutable segment,
  whose source file is not among the sources. It buffers puts and deletes and, on
  \<^verbatim>\<open>Write\<close>, applies them in order to the segment it was made for; a segment that is
  not open refuses the batch as a whole. \<^verbatim>\<open>tableBatch.Write\<close> ranges over a Go map;
  the sub-batches are taken here in the order of the association list.
\<close>

datatype batch_op = BatchPut bytes slice | BatchDelete bytes

record ldbSegmentBatch =
  target :: nat
  pending :: "batch_op list"

definition newBatch :: "nat \<Rightarrow> ldbSegmentBatch" where
  "newBatch p = \<lparr>target = p, pending = []\<rparr>"

definition apply_batch_op :: "LDBSegment \<Rightarrow> batch_op \<Rightarrow> LDBSegment" where
  "apply_batch_op s b =
     (case b of
        BatchPut key val \<Rightarrow> snd (LDBSegment_Put s key val)
      | BatchDelete key \<Rightarrow> snd (LDBSegment_Delete s key))"

definition ldbSegmentBatch_Write :: "ldbSegmentBatch \<Rightarrow> Table \<Rightarrow> error option \<times> Table" where
  "ldbSegmentBatch_Write sb t =
     (if ldb_open (ldb_store t (target sb))
      then (None,
            t\<lparr>ldb_store := (ldb_store t)
                (target sb := foldl apply_batch_op (ldb_store t (target sb)) (pending sb))\<rparr>)
      else (Some ErrClosed, t))"

record tableBatch =
  batches :: "(string \<times> ldbSegmentBatch) list"
  batch_size :: int

definition NewBatch :: tableBatch where
  "NewBatch = \<lparr>batches = [], batch_size = 0\<rparr>"

definition sub_batch :: "tableBatch \<Rightarrow> string \<Rightarrow> nat \<Rightarrow> ldbSegmentBatch" where
  "sub_batch b name p = (case map_of (batches b) name of None \<Rightarrow> newBatch p | Some sb \<Rightarrow> sb)"

definition tableBatch_Put ::
  "filesystem \<Rightarrow> bytes \<Rightarrow> slice \<Rightarrow> Table \<times> tableBatch \<Rightarrow> (error option \<times> Table \<times> tableBatch) outcome" where
  "tableBatch_Put F key val tb =
     (let b = snd tb in
      andThen (Get key (fst tb)) (\<lambda>(r, t1).
        if snd r \<noteq> None \<and> snd r \<noteq> Some ErrNotFound then Returns (snd r, t1, b)
        else if bytes_Equal (fst r) val then Returns (None, t1, b)
        else
          (let name = Partitioner t1 key in
           andThen (CreateSegmentIfNotExists F context_TODO name t1) (\<lambda>(s, t2).
             case s of
               Inl err \<Rightarrow> Returns (Some err, t2, b)
             | Inr p \<Rightarrow>
                 (let sb = sub_batch b name p in
                  Returns (None, t2,
                    b\<lparr>batches :=
                        AList.update name (sb\<lparr>pending := pending sb @ [BatchPut key val]\<rparr>) (batches b),
                      batch_size := batch_size b + int (length (slice_bytes val))\<rparr>))))))"

definition tableBatch_Delete ::
  "filesystem \<Rightarrow> bytes \<Rightarrow> Table \<times> tableBatch \<Rightarrow> (error option \<times> Table \<times> tableBatch) outcome" where
  "tableBatch_Delete F key tb =
     (let b = snd tb in
      andThen (Get key (fst tb)) (\<lambda>(r, t1).
        if snd r = Some ErrNotFound then Returns (None, t1, b)
        else if snd r \<noteq> None then Returns (snd r, t1, b)
        else
          (let name = Partitioner t1 key in
           andThen (CreateSegmentIfNotExists F context_TODO name t1) (\<lambda>(s, t2).
             case s of
               Inl err \<Rightarrow> Returns (Some err, t2, b)
             | Inr p \<Rightarrow>
                 (let sb = sub_batch b name p in
                  Returns (None, t2,
                    b\<lparr>batches :=
                        AList.update name (sb\<lparr>pending := pending sb @ [BatchDelete key]\<rparr>) (batches b)\<rparr>))))))"

fun Write_loop :: "ldbSegmentBatch list \<Rightarrow> Table \<Rightarrow> error option \<times> Table" where
  "Write_loop [] t = (None, t)"
| "Write_loop (sb # sbs) t =
     (case ldbSegmentBatch_Write sb t of
        (Some err, t1) \<Rightarrow> (Some err, t1)
      | (None, t1) \<Rightarrow> Write_loop sbs t1)"

definition tableBatch_Write :: "Table \<times> tableBatch \<Rightarrow> error option \<times> Table" where
  "tableBatch_Write tb = Write_loop (map snd (batches (snd tb))) (fst tb)"

definition ValueSize :: "tableBatch \<Rightarrow> int" where
  "ValueSize b = batch_size b"

definition tableBatch_Reset :: "tableBatch \<Rightarrow> tableBatch" where
  "tableBatch_Reset b =
     b\<lparr>batches := map (\<lambda>e. (fst e, (snd e)\<lparr>pending := []\<rparr>)) (batches b), batch_size := 0\<rparr>"

section \<open>Sequences of operations\<close>

text \<open>
  The operations a client can apply to an opened table and to a batch on it. A run
  lists the state after each operation that completes; it ends where a call blocks or
  panics, since nothing follows such a call.
\<close>

datatype operation =
    OpOpen
  | OpClose
  | OpHas bytes
  | OpGet bytes
  | OpPut bytes slice
  | OpDelete bytes
  | OpCompact Context
  | OpCreateSegmentIfNotExists Context string
  | OpNewBatch
  | OpBatchPut bytes slice
  | OpBatchDelete bytes
  | OpBatchWrite
  | OpBatchReset

fun exec :: "filesystem \<Rightarrow> operation \<Rightarrow> Table \<times> tableBatch \<Rightarrow> (Table \<times> tableBatch) outcome" where
  "exec F OpOpen tb = Returns (snd (Open F (fst tb)), snd tb)"
| "exec F OpClose tb = Returns (Table_Close (fst tb), snd tb)"
| "exec F (OpHas key) tb = andThen (Has key (fst tb)) (\<lambda>(r, t). Returns (t, snd tb))"
| "exec F (OpGet key) tb = andThen (Get key (fst tb)) (\<lambda>(r, t). Returns (t, snd tb))"
| "exec F (OpPut key val) tb = andThen (Put F key val (fst tb)) (\<lambda>(r, t). Returns (t, snd tb))"
| "exec F (OpDelete key) tb = andThen (Delete key (fst tb)) (\<lambda>(r, t). Returns (t, snd tb))"
| "exec F (OpCompact ctx) tb = andThen (Compact F ctx (fst tb)) (\<lambda>(r, t). Returns (t, snd tb))"
| "exec F (OpCreateSegmentIfNotExists ctx name) tb =
     andThen (CreateSegmentIfNotExists F ctx name (fst tb)) (\<lambda>(r, t). Returns (t, snd tb))"
| "exec F OpNewBatch tb = Returns (fst tb, NewBatch)"
| "exec F (OpBatchPut key val) tb = andThen (tableBatch_Put F key val tb) (\<lambda>(r, tb'). Returns tb')"
| "exec F (OpBatchDelete key) tb = andThen (tableBatch_Delete F key tb) (\<lambda>(r, tb'). Returns tb')"
| "exec F OpBatchWrite tb = Returns (snd (tableBatch_Write tb), snd tb)"
| "exec F OpBatchReset tb = Returns (fst tb, tableBatch_Reset (snd tb))"

fun run :: "filesystem \<Rightarrow> operation list \<Rightarrow> Table \<times> tableBatch \<Rightarrow> (Table \<times> tableBatch) list" where
  "run F [] tb = []"
| "run F (op # ops) tb =
     (case exec F op tb of
        Returns tb' \<Rightarrow> tb' # run F ops tb'
      | Blocks \<Rightarrow> []
      | Panics \<Rightarrow> [])"

section \<open>Compaction as the specification words it\<close>

text \<open>
  A second account of compaction, written from the sentences of the specification and not
  from the loop of the source; the two are compared below. The mutable segments are the
  entries of \<open>ldbSegments\<close>, taken in ascending order of name. The candidates are all
  of them except the newest \<^verbatim>\<open>MinMutableSegmentCount\<close>. For one candidate the verdict
  is: too young, when the modification time of its file is younger than
  \<^verbatim>\<open>MinCompactionAge\<close>; compacted into an immutable segment; or failed, when the stat
  or the compactor returned an error. The error of compaction is the first failure. The
  candidates before it that got compacted are listed, by name, with the immutable segment
  each was compacted into: these are the names whose entry is deleted from
  \<open>ldbSegments\<close>, and the segments the universe gets under those names.
\<close>

datatype verdict = TooYoung | Compacted Segment | Failed error

definition mutable_segments_by_name :: "Table \<Rightarrow> (string \<times> nat) list" where
  "mutable_segments_by_name t = sort_key fst (ldbSegments t)"

definition compaction_candidates :: "Table \<Rightarrow> (string \<times> nat) list" where
  "compaction_candidates t =
     rev (drop (nat (MinMutableSegmentCount t)) (rev (mutable_segments_by_name t)))"

definition compaction_verdict :: "filesystem \<Rightarrow> Context \<Rightarrow> Table \<Rightarrow> string \<times> nat \<Rightarrow> verdict" where
  "compaction_verdict F ctx t e =
     (case Stat_Since_ModTime F (ldb_path (ldb_store t (snd e))) of
        Inl err \<Rightarrow> Failed err
      | Inr age \<Rightarrow>
          if age < MinCompactionAge t then TooYoung
          else
            (case fst (CompactSegmentFunc (SegmentCompactor t) ctx (Name t) (ldb_store t (snd e))) of
               Inl err \<Rightarrow> Failed err
             | Inr seg \<Rightarrow> Compacted seg))"

definition is_failure :: "verdict \<Rightarrow> bool" where
  "is_failure v = (case v of Failed err \<Rightarrow> True | _ \<Rightarrow> False)"

definition first_failure :: "verdict list \<Rightarrow> error option" where
  "first_failure vs = (case dropWhile (\<lambda>v. \<not> is_failure v) vs of
                         Failed err # rest \<Rightarrow> Some err
                       | _ \<Rightarrow> None)"

definition compaction_error :: "filesystem \<Rightarrow> Context \<Rightarrow> Table \<Rightarrow> error option" where
  "compaction_error F ctx t =
     first_failure (map (compaction_verdict F ctx t) (compaction_candidates t))"

definition compacted_of :: "(string \<times> verdict) list \<Rightarrow> (string \<times> Segment) list" where
  "compacted_of vs =
     List.map_filter (\<lambda>e. case snd e of Compacted seg \<Rightarrow> Some (fst e, seg) | _ \<Rightarrow> None)
       (takeWhile (\<lambda>e. \<not> is_failure (snd e)) vs)"

definition compacted :: "filesystem \<Rightarrow> Context \<Rightarrow> Table \<Rightarrow> (string \<times> Segment) list" where
  "compacted F ctx t =
     compacted_of (map (\<lambda>e. (fst e, compaction_verdict F ctx t e)) (compaction_candidates t))"

section \<open>Frames and invariants\<close>

text \<open>
  The fields no operation writes, and the relation between the states before and after
  a call that touches nothing but the segment set.
\<close>

definition same_config :: "Table \<Rightarrow> Table \<Rightarrow> bool" where
  "same_config t t' \<longleftrightarrow>
     Name t' = Name t \<and> Path t' = Path t \<and> Partitioner t' = Partitioner t \<and>
     MinMutableSegmentCount t' = MinMutableSegmentCount t \<and>
     MinCompactionAge t' = MinCompactionAge t \<and>
     MaxOpenSegmentCount t' = MaxOpenSegmentCount t \<and>
     SegmentOpener t' = SegmentOpener t \<and> SegmentCompactor t' = SegmentCompactor t"

definition only_segmentSet_changed :: "Table \<Rightarrow> Table \<Rightarrow> bool" where
  "only_segmentSet_changed t t' \<longleftrightarrow>
     same_config t t' \<and> active t' = active t \<and> ldbSegments t' = ldbSegments t \<and>
     ldb_store t' = ldb_store t \<and> ldb_next t' = ldb_next t"

text \<open>
  The names of the two tiers, and the invariant that they share none. The two predicates
  on the pluggable collaborators say that a segment keeps its name when it is compacted
  and that the opener returns the segment it was asked for; \<open>tiers_by_file_type\<close> is
  what the loop of \<^verbatim>\<open>Open\<close> maintains.
\<close>

definition ldb_names :: "Table \<Rightarrow> string set" where
  "ldb_names t = fst ` set (ldbSegments t)"

definition universe_names :: "Table \<Rightarrow> string set" where
  "universe_names t = fst ` set (segments (segmentSet t))"

definition tiers_disjoint :: "Table \<Rightarrow> bool" where
  "tiers_disjoint t \<longleftrightarrow> ldb_names t \<inter> universe_names t = {}"

definition compactor_keeps_names :: "SegmentCompactor \<Rightarrow> bool" where
  "compactor_keeps_names C \<longleftrightarrow>
     (\<forall>ctx table s seg. fst (CompactSegmentFunc C ctx table s) = Inr seg \<longrightarrow>
        NameFunc seg = ldb_name s)"

definition opener_keeps_names :: "SegmentOpener \<Rightarrow> bool" where
  "opener_keeps_names opener \<longleftrightarrow>
     (\<forall>table name path seg. OpenSegmentFunc opener table name path = Inr seg \<longrightarrow> NameFunc seg = name)"

definition tiers_by_file_type :: "filesystem \<Rightarrow> Table \<Rightarrow> bool" where
  "tiers_by_file_type F t \<longleftrightarrow>
     (\<forall>k \<in> ldb_names t. fst (SegmentFileType F (filepath_Join (Path t) k)) = SegmentLDB1 F) \<and>
     (\<forall>k \<in> universe_names t. fst (SegmentFileType F (filepath_Join (Path t) k)) \<noteq> SegmentLDB1 F)"

text \<open>
  What holds of the two maps of a table that has been opened and used. In the mutable
  tier a name occurs once, every entry points to a segment of that name, and every pointer
  has been allocated. In the segment set, the universe and the cache of opened segments
  hold every segment under its own name. Both are shown below to hold after \<^verbatim>\<open>Open\<close>
  and after every operation that follows, provided that the compactor, when it
  uncompacts, returns a mutable segment under the name of the segment it was handed.
  \<open>compactor_closes_segment\<close> is the other half of what the specification asks of
  the compactor, that of a name at most one of the two variants is live at a time: a
  mutable segment that has been compacted is closed.
\<close>

definition mutable_tier_wf :: "Table \<Rightarrow> bool" where
  "mutable_tier_wf t \<longleftrightarrow>
     distinct (map fst (ldbSegments t)) \<and>
     (\<forall>e \<in> set (ldbSegments t). ldb_name (ldb_store t (snd e)) = fst e \<and> snd e < ldb_next t)"

definition segment_set_wf :: "SegmentSet \<Rightarrow> bool" where
  "segment_set_wf ss \<longleftrightarrow>
     (\<forall>e \<in> set (segments ss). NameFunc (snd e) = fst e) \<and>
     (\<forall>e \<in> set (cache ss). NameFunc (snd e) = fst e)"

definition table_wf :: "Table \<Rightarrow> bool" where
  "table_wf t \<longleftrightarrow> mutable_tier_wf t \<and> segment_set_wf (segmentSet t)"

definition uncompactor_keeps_names :: "SegmentCompactor \<Rightarrow> bool" where
  "uncompactor_keeps_names C \<longleftrightarrow>
     (\<forall>ctx table seg s. UncompactSegmentFunc C ctx table (Some seg) = Inr s \<longrightarrow>
        ldb_name s = NameFunc seg)"

definition compactor_closes_segment :: "SegmentCompactor \<Rightarrow> bool" where
  "compactor_closes_segment C \<longleftrightarrow>
     (\<forall>ctx table s seg. fst (CompactSegmentFunc C ctx table s) = Inr seg \<longrightarrow>
        snd (CompactSegmentFunc C ctx table s))"

section \<open>A small table to run the definitions on\<close>

definition example_Partitioner :: "bytes \<Rightarrow> string" where
  "example_Partitioner key =
     (case key of
        [] \<Rightarrow> ''00''
      | b # rest \<Rightarrow> (if b = 1 then ''01'' else if b = 2 then ''02'' else ''03''))"

definition example_compactor :: SegmentCompactor where
  "example_compactor =
     \<lparr>CompactSegmentFunc = (\<lambda>ctx table s.
         (Inr \<lparr>NameFunc = ldb_name s, PathFunc = ldb_path s,
               HasFunc = LDBSegment_Has s, GetFunc = LDBSegment_Get s, OpenFunc = Some None\<rparr>,
          True)),
       UncompactSegmentFunc = (\<lambda>ctx table seg.
         case seg of
           None \<Rightarrow> Inl (ErrOther ''nil segment'')
         | Some g \<Rightarrow>
             Inr \<lparr>ldb_name = NameFunc g, ldb_path = PathFunc g,
                  ldb_data = (\<lambda>k. case fst (GetFunc g k) of None \<Rightarrow> None | Some v \<Rightarrow> Some v),
                  ldb_open = True, ldb_writes = 0\<rparr>)\<rparr>"

definition example_opener :: SegmentOpener where
  "example_opener =
     \<lparr>ListSegmentNamesFunc = (\<lambda>path table. Inr []),
       OpenSegmentFunc = (\<lambda>table name path. Inl ErrSegmentTypeUnknown)\<rparr>"

definition example_fs :: filesystem where
  "example_fs =
     \<lparr>MkdirAll = (\<lambda>path. None),
       SegmentFileType = (\<lambda>path. (''ldb1'', None)),
       SegmentLDB1 = ''ldb1'',
       Stat_Since_ModTime = (\<lambda>path. Inr 100),
       LDBSegment_Open_at = (\<lambda>path. Inr (\<lambda>k. None))\<rparr>"

definition example_table :: Table where
  "example_table =
     \<lparr>active = [], ldbSegments = [], segmentSet = NewSegmentSet 2,
       Name = ''blocks'', Path = ''/data'', Partitioner = example_Partitioner,
       MinMutableSegmentCount = 1, MinCompactionAge = 0, MaxOpenSegmentCount = 2,
       SegmentOpener = example_opener, SegmentCompactor = example_compactor,
       ldb_store = (\<lambda>p. NewLDBSegment [] []), ldb_next = 0\<rparr>"

definition example_segment :: "string \<Rightarrow> Segment" where
  "example_segment name =
     \<lparr>NameFunc = name, PathFunc = ''/data/'' @ name,
      HasFunc = (\<lambda>k. (False, None)), GetFunc = (\<lambda>k. (None, None)), OpenFunc = Some None\<rparr>"

definition example_set :: SegmentSet where
  "example_set =
     \<lparr>segments = [(''01'', example_segment ''01''),
                  (''02'', (example_segment ''02'')\<lparr>OpenFunc := Some (Some (ErrOther ''disk''))\<rparr>)],
      semaphore_size = 2, semaphore_cur = 0,
      cache = [(''00'', example_segment ''00'')], cache_size = 1\<rparr>"

text \<open>The example table after the segment \<open>01\<close> has been created in it.\<close>

definition example_table_01 :: Table where
  "example_table_01 =
     example_table
       \<lparr>active := ''01'', ldbSegments := [(''01'', 0)],
        ldb_store := (\<lambda>p. NewLDBSegment [] [])
          (0 := (NewLDBSegment ''01'' ''/data/01'')\<lparr>ldb_open := True\<rparr>),
        ldb_next := 1\<rparr>"

text \<open>The same table after \<^verbatim>\<open>Put\<close> of the key \<open>[1, 1]\<close> with the value \<open>[7]\<close>.\<close>

definition example_table_01_written :: Table where
  "example_table_01_written =
     example_table_01
       \<lparr>ldb_store := (ldb_store example_table_01)
          (0 := snd (LDBSegment_Put (ldb_store example_table_01 0) [1, 1] (Some [7])))\<rparr>"

text \<open>
  The example table after it has been opened and two keys, of the segments \<open>01\<close> and
  \<open>02\<close>, have been put: \<open>02\<close> is mutable and \<open>01\<close> has been compacted. Once
  with two segments open at a time, and once with one.
\<close>

definition example_puts :: "operation list" where
  "example_puts = [OpOpen, OpPut [1, 1] (Some [7]), OpPut [2, 1] (Some [8])]"

definition example_table_compacted :: Table where
  "example_table_compacted = fst (last (run example_fs example_puts (example_table, NewBatch)))"

definition example_table_one_permit :: Table where
  "example_table_one_permit =
     fst (last (run example_fs example_puts (example_table\<lparr>MaxOpenSegmentCount := 1\<rparr>, NewBatch)))"

text \<open>
  A table that leaves a segment alone until its file is 50 old, on a file system whose
  files are all new, with three keys put into three segments; and the file system some
  time later, when the file of \<open>02\<close> alone is still younger than that.
\<close>

definition example_fs_new :: filesystem where
  "example_fs_new = example_fs\<lparr>Stat_Since_ModTime := (\<lambda>path. Inr 0)\<rparr>"

definition example_fs_later :: filesystem where
  "example_fs_later =
     example_fs\<lparr>Stat_Since_ModTime := (\<lambda>path. if path = ''/data/02'' then Inr 10 else Inr 100)\<rparr>"

definition example_three_puts :: "operation list" where
  "example_three_puts =
     [OpOpen, OpPut [1, 1] (Some [7]), OpPut [2, 1] (Some [8]), OpPut [3, 1] (Some [9])]"

definition example_table_three :: Table where
  "example_table_three =
     fst (last (run example_fs_new example_three_puts
                  (example_table\<lparr>MinCompactionAge := 50\<rparr>, NewBatch)))"

section \<open>Journaled state database\<close>

text \<open>
  Addresses are 20 bytes and hashes 32 bytes. Balances are big integers; nonces, the
  refund counter, the transaction index and the log counter are 64-bit machine words.
  Revision ids are Go ints, taken here as unbounded integers: the counter only ever
  counts up from zero.
\<close>

type_synonym address = "160 word"
type_synonym hash = "256 word"

text \<open>
  The log record of the types package, of which the state database writes the four
  position fields; the rest of a log is carried in \<open>log_payload\<close>.
\<close>

record Log =
  log_payload :: bytes
  TxHash :: hash
  BlockHash :: hash
  TxIndex :: "64 word"
  Index :: "64 word"

record Account =
  Nonce :: "64 word"
  Balance :: int
  Root :: hash
  CodeHash :: hash

text \<open>
  Modelled from the spec: \<^verbatim>\<open>stateObject\<close>, the working copy of one account, whose source
  file is not among the sources. The fields are those of the spec's data model: the
  account record, the optional code with its dirty flag, the cache of committed storage
  reads and the staged storage writes, and the three lifecycle flags.
\<close>

record stateObject =
  so_address :: address
  data :: Account
  code :: slice
  dirtyCode :: bool
  originStorage :: "hash \<Rightarrow> hash option"
  dirtyStorage :: "hash \<Rightarrow> hash option"
  suicided :: bool
  deleted :: bool
  touched :: bool

text \<open>
  Modelled from the spec: the journal, whose source file is not among the sources. One
  constructor per entry kind of the spec's table, holding what the entry captures. The
  journal is the list of entries, oldest first, and the count of entries per dirtied
  address.
\<close>

datatype journalEntry =
    createObjectChange address
  | resetObjectChange stateObject
  | suicideChange address bool int
  | balanceChange address int
  | nonceChange address "64 word"
  | storageChange address hash hash
  | codeChange address hash slice
  | refundChange "64 word"
  | addLogChange hash
  | addPreimageChange hash
  | touchChange address

record journal =
  entries :: "journalEntry list"
  dirties :: "address \<Rightarrow> nat"

definition newJournal :: journal where
  "newJournal = \<lparr>entries = [], dirties = (\<lambda>a. 0)\<rparr>"

definition dirtied :: "journalEntry \<Rightarrow> address option" where
  "dirtied e =
     (case e of
        createObjectChange a \<Rightarrow> Some a
      | resetObjectChange prev \<Rightarrow> None
      | suicideChange a was bal \<Rightarrow> Some a
      | balanceChange a bal \<Rightarrow> Some a
      | nonceChange a n \<Rightarrow> Some a
      | storageChange a k v \<Rightarrow> Some a
      | codeChange a h c \<Rightarrow> Some a
      | refundChange r \<Rightarrow> None
      | addLogChange h \<Rightarrow> None
      | addPreimageChange h \<Rightarrow> None
      | touchChange a \<Rightarrow> Some a)"

definition journal_append :: "journalEntry \<Rightarrow> journal \<Rightarrow> journal" where
  "journal_append e j =
     \<lparr>entries = entries j @ [e],
      dirties = (case dirtied e of
                   None \<Rightarrow> dirties j
                 | Some a \<Rightarrow> (dirties j)(a := Suc (dirties j a)))\<rparr>"

definition journal_length :: "journal \<Rightarrow> nat" where
  "journal_length j = length (entries j)"

text \<open>
  The collaborators the state database reads through and never writes in the operations
  modelled here, named as in the source where the source names them: the lookup of code by
  address and code hash and the lookup of a committed storage slot (the database), the
  decoder of account records (the RLP codec), and the hash function with the hash of the
  empty code.
\<close>

record Database =
  ContractCode :: "address \<Rightarrow> hash \<Rightarrow> slice"
  StorageValue :: "address \<Rightarrow> hash \<Rightarrow> hash \<Rightarrow> hash"
  rlp_DecodeAccount :: "bytes \<Rightarrow> Account option"
  Keccak256Hash :: "slice \<Rightarrow> hash"

record revision =
  rev_id :: int
  journalIndex :: nat

text \<open>
  The state database. \<open>trie\<close> is \<^verbatim>\<open>trie.TryGet\<close> of the account trie: the encoded
  account and the error. \<open>stateObjects\<close> maps an address to the object the Go map points
  to; every method that mutates an object reaches it through this map.
\<close>

record StateDB =
  db :: Database
  trie :: "address \<Rightarrow> bytes \<times> error option"
  stateObjects :: "address \<Rightarrow> stateObject option"
  stateObjectsDirty :: "address set"
  refund :: "64 word"
  thash :: hash
  bhash :: hash
  txIndex :: "64 word"
  logs :: "hash \<Rightarrow> Log list option"
  logSize :: "64 word"
  preimages :: "hash \<Rightarrow> bytes option"
  journal :: journal
  validRevisions :: "revision list"
  nextRevisionId :: int

definition emptyCode :: "StateDB \<Rightarrow> hash" where
  "emptyCode s = Keccak256Hash (db s) None"

definition append_journal :: "journalEntry \<Rightarrow> StateDB \<Rightarrow> StateDB" where
  "append_journal e s = s\<lparr>journal := journal_append e (journal s)\<rparr>"

subsection \<open>The methods of a state object\<close>

text \<open>
  Modelled from the spec: the methods of \<^verbatim>\<open>stateObject\<close>. A mutator journals the prior
  value and then sets the field; it reaches the journal through the owning database, so it
  is a function of the database and the address of the object, which is in
  \<open>stateObjects\<close> whenever a mutator runs.
\<close>

definition newObject :: "StateDB \<Rightarrow> address \<Rightarrow> Account \<Rightarrow> stateObject" where
  "newObject s addr acct =
     \<lparr>so_address = addr, data = acct, code = None, dirtyCode = False,
      originStorage = (\<lambda>k. None), dirtyStorage = (\<lambda>k. None),
      suicided = False, deleted = False, touched = False\<rparr>"

definition empty_Account :: "StateDB \<Rightarrow> Account" where
  "empty_Account s = \<lparr>Nonce = 0, Balance = 0, Root = 0, CodeHash = emptyCode s\<rparr>"

definition so_empty :: "StateDB \<Rightarrow> stateObject \<Rightarrow> bool" where
  "so_empty s obj \<longleftrightarrow>
     Nonce (data obj) = 0 \<and> Balance (data obj) = 0 \<and> CodeHash (data obj) = emptyCode s"

definition update_object :: "address \<Rightarrow> (stateObject \<Rightarrow> stateObject) \<Rightarrow> StateDB \<Rightarrow> StateDB" where
  "update_object addr f s =
     s\<lparr>stateObjects := (stateObjects s)(addr := map_option f (stateObjects s addr))\<rparr>"

definition so_setBalance :: "int \<Rightarrow> stateObject \<Rightarrow> stateObject" where
  "so_setBalance amount obj = obj\<lparr>data := (data obj)\<lparr>Balance := amount\<rparr>\<rparr>"

definition so_setNonce :: "64 word \<Rightarrow> stateObject \<Rightarrow> stateObject" where
  "so_setNonce n obj = obj\<lparr>data := (data obj)\<lparr>Nonce := n\<rparr>\<rparr>"

definition so_setCode :: "hash \<Rightarrow> slice \<Rightarrow> stateObject \<Rightarrow> stateObject" where
  "so_setCode h c obj = obj\<lparr>code := c, data := (data obj)\<lparr>CodeHash := h\<rparr>, dirtyCode := True\<rparr>"

definition so_setState :: "hash \<Rightarrow> hash \<Rightarrow> stateObject \<Rightarrow> stateObject" where
  "so_setState key val obj = obj\<lparr>dirtyStorage := (dirtyStorage obj)(key := Some val)\<rparr>"

definition so_Code :: "Database \<Rightarrow> stateObject \<Rightarrow> slice" where
  "so_Code d obj =
     (case code obj of
        Some c \<Rightarrow> Some c
      | None \<Rightarrow>
          if CodeHash (data obj) = Keccak256Hash d None then None
          else ContractCode d (so_address obj) (CodeHash (data obj)))"

definition so_GetCommittedState :: "Database \<Rightarrow> hash \<Rightarrow> stateObject \<Rightarrow> hash \<times> stateObject" where
  "so_GetCommittedState d key obj =
     (case originStorage obj key of
        Some v \<Rightarrow> (v, obj)
      | None \<Rightarrow>
          (let v = StorageValue d (so_address obj) (Root (data obj)) key in
           (v, obj\<lparr>originStorage := (originStorage obj)(key := Some v)\<rparr>)))"

definition so_GetState :: "Database \<Rightarrow> hash \<Rightarrow> stateObject \<Rightarrow> hash \<times> stateObject" where
  "so_GetState d key obj =
     (case dirtyStorage obj key of
        Some v \<Rightarrow> (v, obj)
      | None \<Rightarrow> so_GetCommittedState d key obj)"

definition stateObject_SetBalance :: "address \<Rightarrow> int \<Rightarrow> StateDB \<Rightarrow> StateDB" where
  "stateObject_SetBalance addr amount s =
     (case stateObjects s addr of
        None \<Rightarrow> s
      | Some obj \<Rightarrow>
          update_object addr (so_setBalance amount)
            (append_journal (balanceChange addr (Balance (data obj))) s))"

definition stateObject_AddBalance :: "address \<Rightarrow> int \<Rightarrow> StateDB \<Rightarrow> StateDB" where
  "stateObject_AddBalance addr amount s =
     (case stateObjects s addr of
        None \<Rightarrow> s
      | Some obj \<Rightarrow> stateObject_SetBalance addr (Balance (data obj) + amount) s)"

definition stateObject_SubBalance :: "address \<Rightarrow> int \<Rightarrow> StateDB \<Rightarrow> StateDB" where
  "stateObject_SubBalance addr amount s =
     (case stateObjects s addr of
        None \<Rightarrow> s
      | Some obj \<Rightarrow> stateObject_SetBalance addr (Balance (data obj) - amount) s)"

definition stateObject_SetNonce :: "address \<Rightarrow> 64 word \<Rightarrow> StateDB \<Rightarrow> StateDB" where
  "stateObject_SetNonce addr n s =
     (case stateObjects s addr of
        None \<Rightarrow> s
      | Some obj \<Rightarrow>
          update_object addr (so_setNonce n)
            (append_journal (nonceChange addr (Nonce (data obj))) s))"

definition stateObject_SetCode :: "address \<Rightarrow> hash \<Rightarrow> slice \<Rightarrow> StateDB \<Rightarrow> StateDB" where
  "stateObject_SetCode addr h c s =
     (case stateObjects s addr of
        None \<Rightarrow> s
      | Some obj \<Rightarrow>
          update_object addr (so_setCode h c)
            (append_journal (codeChange addr (CodeHash (data obj)) (code obj)) s))"

definition stateObject_SetState :: "address \<Rightarrow> hash \<Rightarrow> hash \<Rightarrow> StateDB \<Rightarrow> StateDB" where
  "stateObject_SetState addr key val s =
     (case stateObjects s addr of
        None \<Rightarrow> s
      | Some obj \<Rightarrow>
          (let prev = fst (so_GetState (db s) key obj);
               obj1 = snd (so_GetState (db s) key obj) in
           update_object addr (\<lambda>old. so_setState key val obj1)
             (append_journal (storageChange addr key prev) s)))"

subsection \<open>The methods of the state database\<close>

text \<open>
  The methods of \<^verbatim>\<open>StateDB\<close>, from the source. A method returns its result and the
  database after the call. A panic is \<open>None\<close>. Errors of the getters are logged and
  replaced by a zero value, as in the source; logging is not modelled.
\<close>

definition setStateObject :: "stateObject \<Rightarrow> StateDB \<Rightarrow> StateDB" where
  "setStateObject object s = s\<lparr>stateObjects := (stateObjects s)(so_address object := Some object)\<rparr>"

definition getStateObject :: "address \<Rightarrow> StateDB \<Rightarrow> (stateObject option \<times> error option) \<times> StateDB" where
  "getStateObject addr s =
     (case stateObjects s addr of
        Some obj \<Rightarrow> if deleted obj then ((None, None), s) else ((Some obj, None), s)
      | None \<Rightarrow>
          (let enc = fst (trie s addr); err = snd (trie s addr) in
           if length enc = 0 then ((None, err), s)
           else
             (case rlp_DecodeAccount (db s) enc of
                None \<Rightarrow> ((None, None), s)
              | Some acct \<Rightarrow>
                  (let obj = newObject s addr acct in
                   ((Some obj, None), setStateObject obj s)))))"

subsection \<open>Reverting journal entries\<close>

text \<open>
  Modelled from the spec: what each entry kind does on revert, by the spec's table, and
  \<^verbatim>\<open>journal.revert\<close>, which pops the entries back to the snapshot, newest first, and
  takes each popped entry out of the count of its dirtied address. An entry that restores a
  field of an account does so on the live object of that address, which it gets from the
  database as every other caller does.
\<close>

definition revert_object :: "address \<Rightarrow> (stateObject \<Rightarrow> stateObject) \<Rightarrow> StateDB \<Rightarrow> StateDB" where
  "revert_object a f s =
     (case fst (fst (getStateObject a s)) of
        None \<Rightarrow> snd (getStateObject a s)
      | Some obj \<Rightarrow> update_object a f (snd (getStateObject a s)))"

definition pop_log :: "hash \<Rightarrow> StateDB \<Rightarrow> StateDB" where
  "pop_log h s =
     s\<lparr>logs := (logs s)(h := map_option butlast (logs s h)), logSize := logSize s - 1\<rparr>"

definition revert_entry :: "journalEntry \<Rightarrow> StateDB \<Rightarrow> StateDB" where
  "revert_entry e s =
     (case e of
        createObjectChange a \<Rightarrow>
          s\<lparr>stateObjects := (stateObjects s)(a := None),
            stateObjectsDirty := stateObjectsDirty s - {a}\<rparr>
      | resetObjectChange prev \<Rightarrow>
          s\<lparr>stateObjects := (stateObjects s)(so_address prev := Some prev)\<rparr>
      | suicideChange a was bal \<Rightarrow>
          revert_object a (\<lambda>obj. so_setBalance bal (obj\<lparr>suicided := was\<rparr>)) s
      | balanceChange a bal \<Rightarrow> revert_object a (so_setBalance bal) s
      | nonceChange a n \<Rightarrow> revert_object a (so_setNonce n) s
      | storageChange a k v \<Rightarrow> revert_object a (so_setState k v) s
      | codeChange a h c \<Rightarrow> revert_object a (so_setCode h c) s
      | refundChange r \<Rightarrow> s\<lparr>refund := r\<rparr>
      | addLogChange h \<Rightarrow> pop_log h s
      | addPreimageChange h \<Rightarrow> s\<lparr>preimages := (preimages s)(h := None)\<rparr>
      | touchChange a \<Rightarrow> s)"

definition undirty :: "journalEntry \<Rightarrow> (address \<Rightarrow> nat) \<Rightarrow> (address \<Rightarrow> nat)" where
  "undirty e d = (case dirtied e of None \<Rightarrow> d | Some a \<Rightarrow> d(a := d a - 1))"

definition journal_revert :: "nat \<Rightarrow> StateDB \<Rightarrow> StateDB" where
  "journal_revert snapshot s =
     (let popped = rev (drop snapshot (entries (journal s)));
          s1 = foldl (\<lambda>st e. revert_entry e st) s popped in
      s1\<lparr>journal := \<lparr>entries = take snapshot (entries (journal s)),
                      dirties = foldl (\<lambda>d e. undirty e d) (dirties (journal s)) popped\<rparr>\<rparr>)"

definition createObject :: "address \<Rightarrow> StateDB \<Rightarrow> (stateObject \<times> stateObject option) \<times> StateDB" where
  "createObject addr s =
     (let prev = fst (fst (getStateObject addr s));
          s1 = snd (getStateObject addr s);
          newobj = so_setNonce 0 (newObject s1 addr (empty_Account s1));
          s2 = (case prev of
                  None \<Rightarrow> append_journal (createObjectChange addr) s1
                | Some p \<Rightarrow> append_journal (resetObjectChange p) s1) in
      ((newobj, prev), setStateObject newobj s2))"

definition GetOrNewStateObject :: "address \<Rightarrow> StateDB \<Rightarrow> stateObject \<times> StateDB" where
  "GetOrNewStateObject addr s =
     (case fst (fst (getStateObject addr s)) of
        None \<Rightarrow>
          (fst (fst (createObject addr (snd (getStateObject addr s)))),
           snd (createObject addr (snd (getStateObject addr s))))
      | Some obj \<Rightarrow>
          if deleted obj
          then (fst (fst (createObject addr (snd (getStateObject addr s)))),
                snd (createObject addr (snd (getStateObject addr s))))
          else (obj, snd (getStateObject addr s)))"

definition CreateAccount :: "address \<Rightarrow> StateDB \<Rightarrow> StateDB" where
  "CreateAccount addr s =
     (case snd (fst (createObject addr s)) of
        None \<Rightarrow> snd (createObject addr s)
      | Some prev \<Rightarrow>
          update_object addr (so_setBalance (Balance (data prev))) (snd (createObject addr s)))"

definition AddBalance :: "address \<Rightarrow> int \<Rightarrow> StateDB \<Rightarrow> StateDB" where
  "AddBalance addr amount s = stateObject_AddBalance addr amount (snd (GetOrNewStateObject addr s))"

definition SubBalance :: "address \<Rightarrow> int \<Rightarrow> StateDB \<Rightarrow> StateDB" where
  "SubBalance addr amount s = stateObject_SubBalance addr amount (snd (GetOrNewStateObject addr s))"

definition SetBalance :: "address \<Rightarrow> int \<Rightarrow> StateDB \<Rightarrow> StateDB" where
  "SetBalance addr amount s = stateObject_SetBalance addr amount (snd (GetOrNewStateObject addr s))"

definition SetNonce :: "address \<Rightarrow> 64 word \<Rightarrow> StateDB \<Rightarrow> StateDB" where
  "SetNonce addr n s = stateObject_SetNonce addr n (snd (GetOrNewStateObject addr s))"

definition SetCode :: "address \<Rightarrow> slice \<Rightarrow> StateDB \<Rightarrow> StateDB" where
  "SetCode addr c s =
     stateObject_SetCode addr (Keccak256Hash (db s) c) c (snd (GetOrNewStateObject addr s))"

definition SetState :: "address \<Rightarrow> hash \<Rightarrow> hash \<Rightarrow> StateDB \<Rightarrow> StateDB" where
  "SetState addr key val s = stateObject_SetState addr key val (snd (GetOrNewStateObject addr s))"

definition Suicide :: "address \<Rightarrow> StateDB \<Rightarrow> bool \<times> StateDB" where
  "Suicide addr s =
     (case fst (fst (getStateObject addr s)) of
        None \<Rightarrow> (False, snd (getStateObject addr s))
      | Some obj \<Rightarrow>
          (True,
           update_object addr (\<lambda>old. so_setBalance 0 (old\<lparr>suicided := True\<rparr>))
             (append_journal (suicideChange addr (suicided obj) (Balance (data obj)))
                (snd (getStateObject addr s)))))"

definition AddLog :: "Log \<Rightarrow> StateDB \<Rightarrow> StateDB" where
  "AddLog lg s =
     (let s1 = append_journal (addLogChange (thash s)) s;
          lg1 = lg\<lparr>TxHash := thash s1, BlockHash := bhash s1, TxIndex := txIndex s1,
                   Index := logSize s1\<rparr> in
      s1\<lparr>logs := (logs s1)(thash s1 :=
                Some ((case logs s1 (thash s1) of None \<Rightarrow> [] | Some l \<Rightarrow> l) @ [lg1])),
         logSize := logSize s1 + 1\<rparr>)"

definition GetLogs :: "hash \<Rightarrow> StateDB \<Rightarrow> Log list" where
  "GetLogs h s = (case logs s h of None \<Rightarrow> [] | Some l \<Rightarrow> l)"

definition AddPreimage :: "hash \<Rightarrow> slice \<Rightarrow> StateDB \<Rightarrow> StateDB" where
  "AddPreimage h preimage s =
     (case preimages s h of
        Some present \<Rightarrow> s
      | None \<Rightarrow>
          (let s1 = append_journal (addPreimageChange h) s in
           s1\<lparr>preimages := (preimages s1)(h := Some (slice_bytes preimage))\<rparr>))"

definition Preimages :: "StateDB \<Rightarrow> hash \<Rightarrow> bytes option" where
  "Preimages s = preimages s"

definition AddRefund :: "64 word \<Rightarrow> StateDB \<Rightarrow> StateDB" where
  "AddRefund gas s =
     (let s1 = append_journal (refundChange (refund s)) s in s1\<lparr>refund := refund s1 + gas\<rparr>)"

definition SubRefund :: "64 word \<Rightarrow> StateDB \<Rightarrow> StateDB option" where
  "SubRefund gas s =
     (let s1 = append_journal (refundChange (refund s)) s in
      if refund s1 < gas then None else Some (s1\<lparr>refund := refund s1 - gas\<rparr>))"

definition GetRefund :: "StateDB \<Rightarrow> 64 word" where
  "GetRefund s = refund s"

definition Prepare :: "hash \<Rightarrow> hash \<Rightarrow> 64 word \<Rightarrow> StateDB \<Rightarrow> StateDB" where
  "Prepare th bh ti s = s\<lparr>thash := th, bhash := bh, txIndex := ti\<rparr>"

definition GetBalance :: "address \<Rightarrow> StateDB \<Rightarrow> int \<times> StateDB" where
  "GetBalance addr s =
     (case getStateObject addr s of
        ((obj, Some err), s1) \<Rightarrow> (0, s1)
      | ((Some obj, None), s1) \<Rightarrow> (Balance (data obj), s1)
      | ((None, None), s1) \<Rightarrow> (0, s1))"

definition GetNonce :: "address \<Rightarrow> StateDB \<Rightarrow> 64 word \<times> StateDB" where
  "GetNonce addr s =
     (case getStateObject addr s of
        ((obj, Some err), s1) \<Rightarrow> (0, s1)
      | ((Some obj, None), s1) \<Rightarrow> (Nonce (data obj), s1)
      | ((None, None), s1) \<Rightarrow> (0, s1))"

definition GetCode :: "address \<Rightarrow> StateDB \<Rightarrow> slice \<times> StateDB" where
  "GetCode addr s =
     (case getStateObject addr s of
        ((obj, Some err), s1) \<Rightarrow> (None, s1)
      | ((Some obj, None), s1) \<Rightarrow> (so_Code (db s1) obj, s1)
      | ((None, None), s1) \<Rightarrow> (None, s1))"

definition GetState :: "address \<Rightarrow> hash \<Rightarrow> StateDB \<Rightarrow> hash \<times> StateDB" where
  "GetState addr key s =
     (case getStateObject addr s of
        ((obj, Some err), s1) \<Rightarrow> (0, s1)
      | ((Some obj, None), s1) \<Rightarrow>
          (fst (so_GetState (db s1) key obj),
           update_object addr (\<lambda>old. snd (so_GetState (db s1) key obj)) s1)
      | ((None, None), s1) \<Rightarrow> (0, s1))"

definition HasSuicided :: "address \<Rightarrow> StateDB \<Rightarrow> bool \<times> StateDB" where
  "HasSuicided addr s =
     (case fst (fst (getStateObject addr s)) of
        None \<Rightarrow> (False, snd (getStateObject addr s))
      | Some obj \<Rightarrow> (suicided obj, snd (getStateObject addr s)))"

definition Snapshot :: "StateDB \<Rightarrow> int \<times> StateDB" where
  "Snapshot s =
     (nextRevisionId s,
      s\<lparr>nextRevisionId := nextRevisionId s + 1,
        validRevisions := validRevisions s @
          [\<lparr>rev_id = nextRevisionId s, journalIndex = journal_length (journal s)\<rparr>]\<rparr>)"

text \<open>\<^verbatim>\<open>sort.Search\<close> of the Go library: binary search for the least index at which \<open>f\<close> holds.\<close>

function sort_Search_loop :: "nat \<Rightarrow> nat \<Rightarrow> (nat \<Rightarrow> bool) \<Rightarrow> nat" where
  "sort_Search_loop i j f =
     (if i < j
      then (let h = (i + j) div 2 in
            if \<not> f h then sort_Search_loop (h + 1) j f else sort_Search_loop i h f)
      else i)"
  by pat_completeness auto
termination
  by (relation "measure (\<lambda>(i, j, f). j - i)") auto

definition sort_Search :: "nat \<Rightarrow> (nat \<Rightarrow> bool) \<Rightarrow> nat" where
  "sort_Search n f = sort_Search_loop 0 n f"

definition RevertToSnapshot :: "int \<Rightarrow> StateDB \<Rightarrow> StateDB option" where
  "RevertToSnapshot revid s =
     (let idx = sort_Search (length (validRevisions s))
                  (\<lambda>i. revid \<le> rev_id (validRevisions s ! i)) in
      if idx = length (validRevisions s) \<or> rev_id (validRevisions s ! idx) \<noteq> revid then None
      else
        (let snapshot = journalIndex (validRevisions s ! idx) in
         Some ((journal_revert snapshot s)\<lparr>validRevisions := take idx (validRevisions s)\<rparr>)))"

subsection \<open>Mutations and what can be observed\<close>

text \<open>The state-changing calls a client of the database makes between a snapshot and a revert.\<close>

datatype mutation =
    MAddBalance address int
  | MSubBalance address int
  | MSetBalance address int
  | MSetNonce address "64 word"
  | MSetCode address slice
  | MSetState address hash hash
  | MSuicide address
  | MCreateAccount address
  | MAddLog Log
  | MAddPreimage hash slice
  | MAddRefund "64 word"
  | MSubRefund "64 word"
  | MPrepare hash hash "64 word"

fun mutate :: "mutation \<Rightarrow> StateDB \<Rightarrow> StateDB option" where
  "mutate (MAddBalance a n) s = Some (AddBalance a n s)"
| "mutate (MSubBalance a n) s = Some (SubBalance a n s)"
| "mutate (MSetBalance a n) s = Some (SetBalance a n s)"
| "mutate (MSetNonce a n) s = Some (SetNonce a n s)"
| "mutate (MSetCode a c) s = Some (SetCode a c s)"
| "mutate (MSetState a k v) s = Some (SetState a k v s)"
| "mutate (MSuicide a) s = Some (snd (Suicide a s))"
| "mutate (MCreateAccount a) s = Some (CreateAccount a s)"
| "mutate (MAddLog lg) s = Some (AddLog lg s)"
| "mutate (MAddPreimage h p) s = Some (AddPreimage h p s)"
| "mutate (MAddRefund g) s = Some (AddRefund g s)"
| "mutate (MSubRefund g) s = SubRefund g s"
| "mutate (MPrepare th bh ti) s = Some (Prepare th bh ti s)"

fun mutations :: "mutation list \<Rightarrow> StateDB \<Rightarrow> StateDB option" where
  "mutations [] s = Some s"
| "mutations (m # ms) s = (case mutate m s of None \<Rightarrow> None | Some s1 \<Rightarrow> mutations ms s1)"

text \<open>
  What the getters of the database return for every address, slot and hash: balance, nonce,
  code, storage slot, suicide flag, refund counter, logs with the log counter, and
  preimages.
\<close>

record observation =
  obs_balance :: "address \<Rightarrow> int"
  obs_nonce :: "address \<Rightarrow> 64 word"
  obs_code :: "address \<Rightarrow> slice"
  obs_storage :: "address \<Rightarrow> hash \<Rightarrow> hash"
  obs_suicided :: "address \<Rightarrow> bool"
  obs_refund :: "64 word"
  obs_logs :: "hash \<Rightarrow> Log list"
  obs_logSize :: "64 word"
  obs_preimages :: "hash \<Rightarrow> bytes option"

definition observe :: "StateDB \<Rightarrow> observation" where
  "observe s =
     \<lparr>obs_balance = (\<lambda>a. fst (GetBalance a s)),
      obs_nonce = (\<lambda>a. fst (GetNonce a s)),
      obs_code = (\<lambda>a. fst (GetCode a s)),
      obs_storage = (\<lambda>a k. fst (GetState a k s)),
      obs_suicided = (\<lambda>a. fst (HasSuicided a s)),
      obs_refund = GetRefund s,
      obs_logs = (\<lambda>h. GetLogs h s),
      obs_logSize = logSize s,
      obs_preimages = Preimages s\<rparr>"

text \<open>
  What holds of a database in use: every live object sits under its own address; an object
  marked deleted has no account left in the trie (deletion removes it there); the valid
  revisions carry increasing ids below the next id.
\<close>

definition statedb_wf :: "StateDB \<Rightarrow> bool" where
  "statedb_wf s \<longleftrightarrow>
     (\<forall>a obj. stateObjects s a = Some obj \<longrightarrow>
        so_address obj = a \<and>
        (deleted obj \<longrightarrow> length (fst (trie s a)) = 0 \<or> rlp_DecodeAccount (db s) (fst (trie s a)) = None)) \<and>
     sorted_wrt (<) (map rev_id (validRevisions s)) \<and>
     (\<forall>r \<in> set (validRevisions s). rev_id r < nextRevisionId s)"

text \<open>\<^verbatim>\<open>New\<close>, given the database and the account trie it opened.\<close>

definition New :: "Database \<Rightarrow> (address \<Rightarrow> bytes \<times> error option) \<Rightarrow> StateDB" where
  "New d tr =
     \<lparr>db = d, trie = tr, stateObjects = (\<lambda>a. None), stateObjectsDirty = {}, refund = 0,
      thash = 0, bhash = 0, txIndex = 0, logs = (\<lambda>h. None), logSize = 0,
      preimages = (\<lambda>h. None), journal = newJournal, validRevisions = [], nextRevisionId = 0\<rparr>"

subsection \<open>A small database to run the definitions on\<close>

definition example_database :: Database where
  "example_database =
     \<lparr>ContractCode = (\<lambda>a h. None),
      StorageValue = (\<lambda>a r k. 0),
      rlp_DecodeAccount =
        (\<lambda>enc. if enc = [1] then Some \<lparr>Nonce = 5, Balance = 100, Root = 0, CodeHash = 7\<rparr> else None),
      Keccak256Hash = (\<lambda>c. of_nat (length (slice_bytes c)) + 7)\<rparr>"

definition example_trie :: "address \<Rightarrow> bytes \<times> error option" where
  "example_trie a = (if a = 1 then ([1], None) else ([], None))"

definition example_statedb :: StateDB where
  "example_statedb = New example_database example_trie"

section \<open>Properties of the segmented table\<close>

text \<open>The defining equations, collected for running the definitions on the examples.\<close>

lemmas table_defs =
  Put_def Get_def Has_def Delete_def AcquireSegment_def ReleaseSegment_def Acquire_def Release_def
  Remove_def Add_def Contains_def semaphore_Acquire_def semaphore_Release_def andThen_def
  lru_Get_def lru_Add_def lru_Remove_def context_Background_def context_TODO_def NewSegmentSet_def
  bytes_Equal_def slice_bytes_def CreateSegmentIfNotExists_def uncompact_def compact_def Compact_def
  ldbSegmentSlice_def LDBSegment_Open_def NewLDBSegment_def SegmentPath_def filepath_Join_def
  new_LDBSegment_object_def segment_Get_def segment_Has_def LDBSegment_Get_def LDBSegment_Has_def
  LDBSegment_Put_def LDBSegment_Delete_def LDBSegment_Close_def CompactSegment_def Let_def

lemmas example_defs =
  example_table_def example_table_01_def example_fs_def example_Partitioner_def
  example_compactor_def example_opener_def example_segment_def example_set_def

lemmas example_run_defs =
  example_table_compacted_def example_table_one_permit_def example_table_three_def
  example_puts_def example_three_puts_def example_fs_new_def example_fs_later_def Open_def

lemma andThen_Returns: "andThen (Returns x) f = f x"
  by (simp add: andThen_def)

lemma Acquire_absent:
  assumes "map_of (segments ss) name = None"
    and "map_of (cache ss) name = None"
    and "semaphore_cur ss < semaphore_size ss"
  shows "Acquire name ss = Returns ((None, None), ss)"
  using assms
  by (simp add: Acquire_def semaphore_Acquire_def semaphore_Release_def andThen_def lru_Get_def
      context_Background_def)

text \<open>
  C2. What the two reads do when the partition of a key names a segment that is in neither
  tier (no mutable segment, no entry in the universe, and no handle left in the cache of
  opened segments) and a permit is free: \<^verbatim>\<open>Has\<close> returns false with the not-found
  sentinel, as the claim says, but \<^verbatim>\<open>Get\<close> returns the nil value with a nil error.
  Neither changes the table.
\<close>

theorem Has_Get_absent_segment:
  assumes "map_of (ldbSegments t) (Partitioner t key) = None"
    and "\<not> Contains (Partitioner t key) (segmentSet t)"
    and "map_of (cache (segmentSet t)) (Partitioner t key) = None"
    and "semaphore_cur (segmentSet t) < semaphore_size (segmentSet t)"
  shows "Has key t = Returns ((False, Some ErrNotFound), t) \<and> Get key t = Returns ((None, None), t)"
proof -
  from assms(2) have u: "map_of (segments (segmentSet t)) (Partitioner t key) = None"
    by (simp add: Contains_def)
  have a: "AcquireSegment (Partitioner t key) t = Returns ((None, None), t)"
    using assms(1) Acquire_absent [OF u assms(3) assms(4)]
    by (simp add: AcquireSegment_def andThen_def)
  show ?thesis
    by (simp add: Has_def Get_def a andThen_def)
qed

theorem Has_Get_absent_segment_example:
  "Has [1] example_table = Returns ((False, Some ErrNotFound), example_table) \<and>
   Get [1] example_table = Returns ((None, None), example_table)"
proof -
  have 1: "map_of (ldbSegments example_table) (Partitioner example_table [1]) = None"
    by (simp add: example_table_def)
  have 2: "\<not> Contains (Partitioner example_table [1]) (segmentSet example_table)"
    by (simp add: example_table_def Contains_def NewSegmentSet_def)
  have 3: "map_of (cache (segmentSet example_table)) (Partitioner example_table [1]) = None"
    by (simp add: example_table_def NewSegmentSet_def)
  have 4: "semaphore_cur (segmentSet example_table) < semaphore_size (segmentSet example_table)"
    by (simp add: example_table_def NewSegmentSet_def)
  show ?thesis
    using Has_Get_absent_segment [OF 1 2 3 4] .
qed

text \<open>
  C2 as stated fails for \<^verbatim>\<open>Get\<close>: on the empty example table the partition of the key
  names no segment of either tier, and \<^verbatim>\<open>Get\<close> returns a nil error, not the sentinel
  that \<^verbatim>\<open>Has\<close> returns for the same key.
\<close>

theorem Get_absent_segment_returns_nil_error:
  "map_of (ldbSegments example_table) (Partitioner example_table [1]) = None \<and>
   \<not> Contains (Partitioner example_table [1]) (segmentSet example_table) \<and>
   Get [1] example_table = Returns ((None, None), example_table) \<and>
   (\<nexists>v t'. Get [1] example_table = Returns ((v, Some ErrNotFound), t'))"
  by (simp add: Get_def AcquireSegment_def Acquire_def semaphore_Acquire_def semaphore_Release_def
      andThen_def lru_Get_def context_Background_def Contains_def example_table_def
      NewSegmentSet_def example_Partitioner_def)

text \<open>
  \<^verbatim>\<open>tableBatch.Delete\<close> reads the key through \<^verbatim>\<open>Get\<close> and means to do nothing when
  there is no value, which it recognises by the sentinel. For a segment that is absent the
  sentinel never comes, and the delete creates the segment it had nothing to delete from.
\<close>

lemma tableBatch_Delete_of_an_absent_segment:
  "\<exists>t' b'. tableBatch_Delete example_fs [1] (example_table, NewBatch) = Returns (None, t', b') \<and>
     ldbSegments example_table = [] \<and>
     ldbSegments t' = [(''01'', 0)] \<and>
     map (\<lambda>e. (fst e, pending (snd e))) (batches b') = [(''01'', [BatchDelete [1]])]"
  by (simp add: tableBatch_Delete_def NewBatch_def sub_batch_def newBatch_def table_defs example_defs)

subsection \<open>Acquiring a segment from the set\<close>

lemma map_of_lru_Add_same:
  "0 < cap \<Longrightarrow> map_of (lru_Add cap k v c) k = Some v"
  by (cases c rule: rev_cases) (auto simp: lru_Add_def butlast_append split: option.splits)

text \<open>
  C4. \<^verbatim>\<open>Acquire\<close> first takes a permit, and waits for ever when none is free. With the
  permit: a name in the cache of opened segments is returned (and moved to the front), the
  permit kept; a name absent from the universe gives nil and no error, the permit
  released; a segment whose \<^verbatim>\<open>Open\<close> fails gives the error, the permit released; any
  other segment is added to the LRU cache and returned, the permit kept.
\<close>

theorem Acquire_cases:
  "(semaphore_size ss \<le> semaphore_cur ss \<longrightarrow> Acquire name ss = Blocks) \<and>
   (semaphore_cur ss < semaphore_size ss \<longrightarrow>
      (\<forall>s. map_of (cache ss) name = Some s \<longrightarrow>
         Acquire name ss =
           Returns ((Some s, None),
             ss\<lparr>semaphore_cur := Suc (semaphore_cur ss),
                cache := (name, s) # AList.delete name (cache ss)\<rparr>)) \<and>
      (map_of (cache ss) name = None \<and> map_of (segments ss) name = None \<longrightarrow>
         Acquire name ss = Returns ((None, None), ss)) \<and>
      (\<forall>s err. map_of (cache ss) name = None \<and> map_of (segments ss) name = Some s \<and>
           OpenFunc s = Some (Some err) \<longrightarrow>
         Acquire name ss = Returns ((None, Some err), ss)) \<and>
      (\<forall>s. map_of (cache ss) name = None \<and> map_of (segments ss) name = Some s \<and>
           (OpenFunc s = None \<or> OpenFunc s = Some None) \<longrightarrow>
         Acquire name ss =
           Returns ((Some s, None),
             ss\<lparr>semaphore_cur := Suc (semaphore_cur ss),
                cache := lru_Add (cache_size ss) name s (cache ss)\<rparr>) \<and>
         (0 < cache_size ss \<longrightarrow>
            map_of (lru_Add (cache_size ss) name s (cache ss)) name = Some s)))"
  by (auto simp: Acquire_def semaphore_Acquire_def semaphore_Release_def andThen_def lru_Get_def
      context_Background_def map_of_lru_Add_same)

theorem Acquire_cases_example:
  "Acquire ''00'' example_set =
     Returns ((Some (example_segment ''00''), None), example_set\<lparr>semaphore_cur := 1\<rparr>) \<and>
   Acquire ''03'' example_set = Returns ((None, None), example_set) \<and>
   Acquire ''02'' example_set = Returns ((None, Some (ErrOther ''disk'')), example_set) \<and>
   Acquire ''01'' example_set =
     Returns ((Some (example_segment ''01''), None),
       example_set\<lparr>semaphore_cur := 1, cache := [(''01'', example_segment ''01'')]\<rparr>) \<and>
   Acquire ''01'' (example_set\<lparr>semaphore_cur := 2\<rparr>) = Blocks"
  using Acquire_cases [of example_set "''00''"] Acquire_cases [of example_set "''03''"]
    Acquire_cases [of example_set "''02''"] Acquire_cases [of example_set "''01''"]
    Acquire_cases [of "example_set\<lparr>semaphore_cur := 2\<rparr>" "''01''"]
  by (simp add: example_set_def example_segment_def lru_Add_def)

subsection \<open>What a call leaves alone\<close>

lemma Acquire_frame:
  "Acquire name ss = Returns (r, ss') \<Longrightarrow>
     segments ss' = segments ss \<and> semaphore_size ss' = semaphore_size ss \<and> cache_size ss' = cache_size ss"
  by (auto simp: Acquire_def semaphore_Acquire_def semaphore_Release_def andThen_def lru_Get_def
      context_Background_def split: if_splits option.splits prod.splits)

lemma Release_frame:
  "Release ss = Returns ss' \<Longrightarrow>
     segments ss' = segments ss \<and> cache ss' = cache ss \<and> semaphore_size ss' = semaphore_size ss \<and>
     cache_size ss' = cache_size ss"
  by (auto simp: Release_def semaphore_Release_def split: if_splits)

lemma Remove_segments:
  "Remove ctx name ss = Returns ss' \<Longrightarrow> segments ss' = AList.delete name (segments ss)"
  by (auto simp: Remove_def semaphore_Acquire_def semaphore_Release_def andThen_def Let_def
      split: if_splits option.splits)

lemma only_segmentSet_changed_refl: "only_segmentSet_changed t t"
  by (simp add: only_segmentSet_changed_def same_config_def)

lemma only_segmentSet_changed_trans:
  "only_segmentSet_changed t t1 \<Longrightarrow> only_segmentSet_changed t1 t2 \<Longrightarrow> only_segmentSet_changed t t2"
  by (simp add: only_segmentSet_changed_def same_config_def)

lemma only_segmentSet_changed_update: "only_segmentSet_changed t (t\<lparr>segmentSet := ss\<rparr>)"
  by (simp add: only_segmentSet_changed_def same_config_def)

lemma AcquireSegment_frame:
  "AcquireSegment name t = Returns (r, t') \<Longrightarrow>
     only_segmentSet_changed t t' \<and> segments (segmentSet t') = segments (segmentSet t)"
  by (auto simp: AcquireSegment_def andThen_def only_segmentSet_changed_update
      only_segmentSet_changed_refl split: option.splits outcome.splits dest!: Acquire_frame)

lemma ReleaseSegment_frame:
  "ReleaseSegment s t = Returns t' \<Longrightarrow>
     only_segmentSet_changed t t' \<and> segments (segmentSet t') = segments (segmentSet t)"
  by (cases s) (auto simp: ReleaseSegment_def andThen_def only_segmentSet_changed_update
      only_segmentSet_changed_refl split: outcome.splits dest!: Release_frame)

lemma Get_frame:
  "Get key t = Returns (r, t') \<Longrightarrow>
     only_segmentSet_changed t t' \<and> segments (segmentSet t') = segments (segmentSet t)"
  by (auto simp: Get_def andThen_def only_segmentSet_changed_refl
      split: option.splits outcome.splits prod.splits
      dest!: AcquireSegment_frame ReleaseSegment_frame intro: only_segmentSet_changed_trans)

lemma Has_frame:
  "Has key t = Returns (r, t') \<Longrightarrow>
     only_segmentSet_changed t t' \<and> segments (segmentSet t') = segments (segmentSet t)"
  by (auto simp: Has_def andThen_def only_segmentSet_changed_refl
      split: option.splits outcome.splits prod.splits
      dest!: AcquireSegment_frame ReleaseSegment_frame intro: only_segmentSet_changed_trans)

lemma compact_loop_Cons:
  "compact_loop F ctx (p # ps) t =
     (case Stat_Since_ModTime F (ldb_path (ldb_store t p)) of
        Inl err \<Rightarrow> (Some err, t)
      | Inr age \<Rightarrow>
          if age < MinCompactionAge t then compact_loop F ctx ps t
          else
            (case fst (CompactSegmentFunc (SegmentCompactor t) ctx (Name t) (ldb_store t p)) of
               Inl err \<Rightarrow> (Some err, snd (CompactSegment ctx p t))
             | Inr new \<Rightarrow>
                 compact_loop F ctx ps
                   ((snd (CompactSegment ctx p t))
                      \<lparr>segmentSet := Add new (segmentSet t),
                       ldbSegments := AList.delete (ldb_name (ldb_store t p)) (ldbSegments t)\<rparr>)))"
  by (auto simp: CompactSegment_def Let_def split: sum.splits prod.splits)

text \<open>
  What every pass of the loop of \<^verbatim>\<open>compact\<close> keeps: a property of the table that
  survives the closing of a mutable segment, and the move of a compacted segment from
  \<open>ldbSegments\<close> to the universe, holds at the end of the loop.
\<close>

lemma compact_loop_preserves:
  assumes "P t"
    and closing: "\<And>t p. P t \<Longrightarrow>
           P (t\<lparr>ldb_store := (ldb_store t)(p := LDBSegment_Close (ldb_store t p))\<rparr>)"
    and moving: "\<And>t p new.
           P t \<Longrightarrow>
           fst (CompactSegmentFunc (SegmentCompactor t) ctx (Name t) (ldb_store t p)) = Inr new \<Longrightarrow>
           P (t\<lparr>segmentSet := Add new (segmentSet t),
                ldbSegments := AList.delete (ldb_name (ldb_store t p)) (ldbSegments t)\<rparr>)"
  shows "P (snd (compact_loop F ctx ps t))"
  using assms(1)
proof (induction ps arbitrary: t)
  case Nil
  then show ?case by simp
next
  case (Cons p ps)
  let ?r = "CompactSegmentFunc (SegmentCompactor t) ctx (Name t) (ldb_store t p)"
  have closed: "P (snd (CompactSegment ctx p t))"
    using closing [OF Cons.prems, of p] Cons.prems by (simp add: CompactSegment_def Let_def)
  have moved: "P ((snd (CompactSegment ctx p t))
                    \<lparr>segmentSet := Add new (segmentSet t),
                     ldbSegments := AList.delete (ldb_name (ldb_store t p)) (ldbSegments t)\<rparr>)"
    if new: "fst ?r = Inr new" for new
  proof -
    let ?m = "t\<lparr>segmentSet := Add new (segmentSet t),
                ldbSegments := AList.delete (ldb_name (ldb_store t p)) (ldbSegments t)\<rparr>"
    have m: "P ?m"
      using Cons.prems new by (rule moving)
    have eq: "(snd (CompactSegment ctx p t))
            \<lparr>segmentSet := Add new (segmentSet t),
             ldbSegments := AList.delete (ldb_name (ldb_store t p)) (ldbSegments t)\<rparr>
          = (if snd ?r then ?m\<lparr>ldb_store := (ldb_store ?m)(p := LDBSegment_Close (ldb_store ?m p))\<rparr>
             else ?m)"
      by (cases t) (simp add: CompactSegment_def Let_def)
    show ?thesis
    proof (cases "snd ?r")
      case True
      then show ?thesis
        unfolding eq using closing [OF m, of p] by (simp only: if_True)
    next
      case False
      then show ?thesis
        unfolding eq using m by (simp only: if_False)
    qed
  qed
  show ?case
    unfolding compact_loop_Cons
    using Cons.prems closed Cons.IH [OF Cons.prems] Cons.IH [OF moved]
    by (auto split: sum.splits)
qed

lemma compact_loop_active: "active (snd (compact_loop F ctx ps t)) = active t"
  by (rule compact_loop_preserves [where P = "\<lambda>t'. active t' = active t"]) simp_all

lemma compact_active: "compact F ctx t = Returns (r, t') \<Longrightarrow> active t' = active t"
  by (auto simp: compact_def Let_def split: if_splits)
    (metis compact_loop_active snd_conv)

lemma map_of_delete_same: "map_of (AList.delete k xs) k = None"
  by (simp add: AList.delete_eq map_of_eq_None_iff image_iff)

lemma uncompact_result:
  assumes "uncompact ctx name t = Returns (Inr p, t')"
  shows "map_of (ldbSegments t') name = Some p \<and> \<not> Contains name (segmentSet t') \<and>
         active t' = active t \<and> p = ldb_next t \<and> ldb_next t' = Suc (ldb_next t) \<and>
         ldbSegments t' = AList.update name p (ldbSegments t) \<and>
         segments (segmentSet t') = AList.delete name (segments (segmentSet t))"
  using assms
  apply (simp add: uncompact_def andThen_def new_LDBSegment_object_def Let_def
      split: outcome.splits prod.splits option.splits sum.splits)
  apply (auto simp: Contains_def map_of_delete_same update_conv'
      dest!: Acquire_frame Remove_segments Release_frame)
  done

subsection \<open>Writing an empty value where there is none\<close>

text \<open>
  C9. When \<^verbatim>\<open>Get\<close> yields no bytes for the key (with no error, or with the not-found
  sentinel), \<^verbatim>\<open>Put\<close> of a nil or empty value returns nil and leaves the table as the
  read left it: no mutable segment is written, created or uncompacted, and the universe and
  \<open>active\<close> are as before.
\<close>

theorem Put_empty_on_absent_value:
  assumes "Get key t = Returns ((v, err), t1)"
    and "slice_bytes v = []"
    and "err = None \<or> err = Some ErrNotFound"
    and "slice_bytes val = []"
  shows "Put F key val t = Returns (None, t1) \<and>
         ldbSegments t1 = ldbSegments t \<and> ldb_store t1 = ldb_store t \<and> ldb_next t1 = ldb_next t \<and>
         segments (segmentSet t1) = segments (segmentSet t) \<and> active t1 = active t"
proof -
  have "Put F key val t = Returns (None, t1)"
    using assms by (auto simp: Put_def andThen_def bytes_Equal_def)
  then show ?thesis
    using Get_frame [OF assms(1)] by (simp add: only_segmentSet_changed_def)
qed

theorem Put_empty_on_absent_value_example:
  "Put example_fs [1] None example_table = Returns (None, example_table) \<and>
   Put example_fs [1, 2] (Some []) example_table_01 = Returns (None, example_table_01)"
proof -
  have g1: "Get [1] example_table = Returns ((None, None), example_table)"
    by (simp add: Get_def AcquireSegment_def Acquire_def semaphore_Acquire_def semaphore_Release_def
      andThen_def lru_Get_def context_Background_def example_table_def
      NewSegmentSet_def example_Partitioner_def)
  have g2: "Get [1, 2] example_table_01 = Returns ((None, Some ErrNotFound), example_table_01)"
    by (simp add: Get_def AcquireSegment_def andThen_def example_table_def example_table_01_def
      example_Partitioner_def ReleaseSegment_def segment_Get_def LDBSegment_Get_def NewLDBSegment_def)
  show ?thesis
    using Put_empty_on_absent_value [OF g1, of None example_fs]
      Put_empty_on_absent_value [OF g2, of "Some []" example_fs]
    by (simp add: slice_bytes_def)
qed

subsection \<open>The active name\<close>


lemma set_active_if_greater_mono: "active t \<le> active (set_active_if_greater name t)"
  by (simp add: set_active_if_greater_def less_imp_le)

lemma Open_loop_active_mono: "active t \<le> active (snd (Open_loop F names t))"
proof (induction names arbitrary: t)
  case Nil
  then show ?case by simp
next
  case (Cons name names)
  have ldb: "active t \<le> active (snd (Open_loop F names
               (set_active_if_greater name
                 ((snd (new_LDBSegment_object s t))
                    \<lparr>ldbSegments := AList.update name (ldb_next t) (ldbSegments t)\<rparr>))))" for s
    using Cons.IH [of "set_active_if_greater name
                 ((snd (new_LDBSegment_object s t))
                    \<lparr>ldbSegments := AList.update name (ldb_next t) (ldbSegments t)\<rparr>)"]
    by (auto simp: set_active_if_greater_def new_LDBSegment_object_def split: if_splits)
  have seg: "active t \<le> active (snd (Open_loop F names
               (set_active_if_greater name (t\<lparr>segmentSet := Add g (segmentSet t)\<rparr>))))" for g
    using Cons.IH [of "set_active_if_greater name (t\<lparr>segmentSet := Add g (segmentSet t)\<rparr>)"]
    by (auto simp: set_active_if_greater_def split: if_splits)
  show ?case
    using Cons.IH [of t] ldb seg
    by (auto simp: Let_def Table_Close_def split: sum.splits option.splits)
qed

lemma Open_active_mono: "active t \<le> active (snd (Open F t))"
proof -
  have "active (t\<lparr>ldbSegments := [], segmentSet := NewSegmentSet (MaxOpenSegmentCount t)\<rparr>) = active t"
    by simp
  then show ?thesis
    unfolding Open_def Let_def
    by (auto split: option.splits sum.splits intro: order_trans [OF _ Open_loop_active_mono])
qed

lemma uncompact_active: "uncompact ctx name t = Returns (r, t') \<Longrightarrow> active t' = active t"
  by (auto simp: uncompact_def andThen_def new_LDBSegment_object_def Let_def
      split: outcome.splits prod.splits option.splits sum.splits)

lemma CreateSegmentIfNotExists_active_mono:
  "CreateSegmentIfNotExists F ctx name t = Returns (r, t') \<Longrightarrow> active t \<le> active t'"
  by (auto simp: CreateSegmentIfNotExists_def new_LDBSegment_object_def Let_def andThen_def
      split: outcome.splits option.splits if_splits sum.splits
      dest!: compact_active uncompact_active)


lemma Put_active_mono: "Put F key val t = Returns (r, t') \<Longrightarrow> active t \<le> active t'"
  by (auto simp: Put_def andThen_def only_segmentSet_changed_def
      split: outcome.splits prod.splits if_splits sum.splits
      dest!: Get_frame CreateSegmentIfNotExists_active_mono)

lemma Delete_active: "Delete key t = Returns (r, t') \<Longrightarrow> active t' = active t"
  by (auto simp: Delete_def andThen_def only_segmentSet_changed_def
      split: outcome.splits prod.splits option.splits acquired.splits
      dest!: AcquireSegment_frame ReleaseSegment_frame)

lemma tableBatch_Put_active_mono:
  "tableBatch_Put F key val tb = Returns (r, tb') \<Longrightarrow> active (fst tb) \<le> active (fst tb')"
  by (auto simp: tableBatch_Put_def andThen_def only_segmentSet_changed_def Let_def
      split: outcome.splits prod.splits if_splits sum.splits
      dest!: Get_frame CreateSegmentIfNotExists_active_mono)

lemma tableBatch_Delete_active_mono:
  "tableBatch_Delete F key tb = Returns (r, tb') \<Longrightarrow> active (fst tb) \<le> active (fst tb')"
  by (auto simp: tableBatch_Delete_def andThen_def only_segmentSet_changed_def Let_def
      split: outcome.splits prod.splits if_splits sum.splits
      dest!: Get_frame CreateSegmentIfNotExists_active_mono)

lemma Write_loop_active: "active (snd (Write_loop sbs t)) = active t"
  by (induction sbs arbitrary: t) (auto simp: ldbSegmentBatch_Write_def split: if_splits)

lemma exec_active_mono:
  "exec F op tb = Returns tb' \<Longrightarrow> active (fst tb) \<le> active (fst tb')"
proof (cases op)
  case OpOpen
  then show "exec F op tb = Returns tb' \<Longrightarrow> ?thesis"
    using Open_active_mono [of "fst tb" F] by auto
next
  case OpClose
  then show "exec F op tb = Returns tb' \<Longrightarrow> ?thesis"
    by (auto simp: Table_Close_def)
next
  case (OpHas key)
  then show "exec F op tb = Returns tb' \<Longrightarrow> ?thesis"
    by (auto simp: andThen_def only_segmentSet_changed_def split: outcome.splits dest!: Has_frame)
next
  case (OpGet key)
  then show "exec F op tb = Returns tb' \<Longrightarrow> ?thesis"
    by (auto simp: andThen_def only_segmentSet_changed_def split: outcome.splits dest!: Get_frame)
next
  case (OpPut key val)
  then show "exec F op tb = Returns tb' \<Longrightarrow> ?thesis"
    by (auto simp: andThen_def split: outcome.splits dest!: Put_active_mono)
next
  case (OpDelete key)
  then show "exec F op tb = Returns tb' \<Longrightarrow> ?thesis"
    by (auto simp: andThen_def split: outcome.splits dest!: Delete_active)
next
  case (OpCompact ctx)
  then show "exec F op tb = Returns tb' \<Longrightarrow> ?thesis"
    by (auto simp: andThen_def Compact_def split: outcome.splits dest!: compact_active)
next
  case (OpCreateSegmentIfNotExists ctx name)
  then show "exec F op tb = Returns tb' \<Longrightarrow> ?thesis"
    by (auto simp: andThen_def split: outcome.splits dest!: CreateSegmentIfNotExists_active_mono)
next
  case OpNewBatch
  then show "exec F op tb = Returns tb' \<Longrightarrow> ?thesis" by auto
next
  case (OpBatchPut key val)
  then show "exec F op tb = Returns tb' \<Longrightarrow> ?thesis"
    by (auto simp: andThen_def split: outcome.splits dest!: tableBatch_Put_active_mono)
next
  case (OpBatchDelete key)
  then show "exec F op tb = Returns tb' \<Longrightarrow> ?thesis"
    by (auto simp: andThen_def split: outcome.splits dest!: tableBatch_Delete_active_mono)
next
  case OpBatchWrite
  then show "exec F op tb = Returns tb' \<Longrightarrow> ?thesis"
    by (auto simp: tableBatch_Write_def Write_loop_active)
next
  case OpBatchReset
  then show "exec F op tb = Returns tb' \<Longrightarrow> ?thesis" by auto
qed

text \<open>
  C7. Along every run of operations from any table, \<open>active\<close> never decreases in
  the lexicographic order: the names read off the states, the starting state first, are
  sorted.
\<close>

theorem active_never_decreases:
  "sorted (map (\<lambda>tb. active (fst tb)) (tb # run F ops tb))"
proof (induction ops arbitrary: tb)
  case Nil
  then show ?case by simp
next
  case (Cons op ops)
  show ?case
  proof (cases "exec F op tb")
    case (Returns tb')
    have step: "active (fst tb) \<le> active (fst tb')"
      using exec_active_mono [OF Returns] .
    have rest: "sorted (map (\<lambda>tb. active (fst tb)) (tb' # run F ops tb'))"
      using Cons.IH .
    then have "\<forall>x \<in> set (run F ops tb'). active (fst tb') \<le> active (fst x)"
      by auto
    with step have "\<forall>x \<in> set (tb' # run F ops tb'). active (fst tb) \<le> active (fst x)"
      by (auto intro: order_trans)
    with rest Returns show ?thesis by simp
  qed simp_all
qed

theorem active_never_decreases_example:
  "map (\<lambda>tb. active (fst tb))
     ((example_table, NewBatch) #
        run example_fs [OpPut [1, 1] (Some [7]), OpPut [2, 1] (Some [8]), OpGet [1, 1]]
          (example_table, NewBatch)) = ['''', ''01'', ''02'', ''02''] \<and>
   sorted ['''', ''01'', ''02'', ''02'' :: string]"
  using active_never_decreases [of "(example_table, NewBatch)" example_fs
      "[OpPut [1, 1] (Some [7]), OpPut [2, 1] (Some [8]), OpGet [1, 1]]"]
  by (simp add: table_defs example_defs)

subsection \<open>The two tiers share no name\<close>

lemma keys_update: "fst ` set (AList.update k v xs) = insert k (fst ` set xs)"
  by (induction xs) auto

lemma keys_delete: "fst ` set (AList.delete k xs) = fst ` set xs - {k}"
  by (induction xs) auto

lemma ldb_names_simps:
  "ldb_names (t\<lparr>ldbSegments := l\<rparr>) = fst ` set l"
  "ldb_names (t\<lparr>segmentSet := ss\<rparr>) = ldb_names t"
  "ldb_names (t\<lparr>active := a\<rparr>) = ldb_names t"
  "ldb_names (t\<lparr>ldb_store := st\<rparr>) = ldb_names t"
  "ldb_names (t\<lparr>ldb_next := n\<rparr>) = ldb_names t"
  by (simp_all add: ldb_names_def)

lemma universe_names_simps:
  "universe_names (t\<lparr>ldbSegments := l\<rparr>) = universe_names t"
  "universe_names (t\<lparr>segmentSet := ss\<rparr>) = fst ` set (segments ss)"
  "universe_names (t\<lparr>active := a\<rparr>) = universe_names t"
  "universe_names (t\<lparr>ldb_store := st\<rparr>) = universe_names t"
  "universe_names (t\<lparr>ldb_next := n\<rparr>) = universe_names t"
  by (simp_all add: universe_names_def)

lemma names_eqI:
  "ldbSegments t' = ldbSegments t \<Longrightarrow> ldb_names t' = ldb_names t"
  "segments (segmentSet t') = segments (segmentSet t) \<Longrightarrow> universe_names t' = universe_names t"
  by (simp_all add: ldb_names_def universe_names_def)

lemma compact_step_disjoint:
  assumes "tiers_disjoint t"
  shows "tiers_disjoint (t\<lparr>segmentSet := Add new (segmentSet t),
                         ldbSegments := AList.delete (NameFunc new) (ldbSegments t)\<rparr>)"
proof -
  have "(ldb_names t - {NameFunc new}) \<inter> insert (NameFunc new) (universe_names t) = {}"
    using assms unfolding tiers_disjoint_def by blast
  then show ?thesis
    by (simp add: tiers_disjoint_def ldb_names_simps universe_names_simps Add_def keys_update
        keys_delete ldb_names_def [of t] universe_names_def [of t])
qed

lemma compact_loop_disjoint:
  assumes c: "compactor_keeps_names (SegmentCompactor t)" and d: "tiers_disjoint t"
  shows "tiers_disjoint (snd (compact_loop F ctx ps t))"
proof -
  let ?P = "\<lambda>t'. tiers_disjoint t' \<and> SegmentCompactor t' = SegmentCompactor t"
  have "?P (snd (compact_loop F ctx ps t))"
  proof (rule compact_loop_preserves [where P = ?P])
    show "?P t" using d by simp
  next
    fix t' p
    assume "?P t'"
    then show "?P (t'\<lparr>ldb_store := (ldb_store t')(p := LDBSegment_Close (ldb_store t' p))\<rparr>)"
      by (simp add: tiers_disjoint_def ldb_names_def universe_names_def)
  next
    fix t' p new
    assume P: "?P t'"
      and new: "fst (CompactSegmentFunc (SegmentCompactor t') ctx (Name t') (ldb_store t' p)) = Inr new"
    from new P c have "NameFunc new = ldb_name (ldb_store t' p)"
      by (auto simp: compactor_keeps_names_def)
    with compact_step_disjoint [of t' new] P
    show "?P (t'\<lparr>segmentSet := Add new (segmentSet t'),
                ldbSegments := AList.delete (ldb_name (ldb_store t' p)) (ldbSegments t')\<rparr>)"
      by simp
  qed
  then show ?thesis by simp
qed

lemma compact_loop_config: "same_config t (snd (compact_loop F ctx ps t))"
  by (rule compact_loop_preserves [where P = "same_config t"]) (simp_all add: same_config_def)

lemma compact_disjoint:
  "compact F ctx t = Returns (r, t') \<Longrightarrow> compactor_keeps_names (SegmentCompactor t) \<Longrightarrow>
     tiers_disjoint t \<Longrightarrow> tiers_disjoint t'"
  by (auto simp: compact_def Let_def split: if_splits)
    (metis compact_loop_disjoint snd_conv)

lemma compact_config: "compact F ctx t = Returns (r, t') \<Longrightarrow> same_config t t'"
  by (auto simp: compact_def Let_def same_config_def split: if_splits)
    (metis compact_loop_config same_config_def snd_conv)+

lemma uncompact_tiers:
  assumes "uncompact ctx name t = Returns (r, t')"
  shows "same_config t t' \<and>
         ((ldbSegments t' = ldbSegments t \<and> segments (segmentSet t') = segments (segmentSet t)) \<or>
          (ldbSegments t' = AList.update name (ldb_next t) (ldbSegments t) \<and>
           segments (segmentSet t') = AList.delete name (segments (segmentSet t))))"
  using assms
  apply (simp add: uncompact_def andThen_def new_LDBSegment_object_def Let_def
      split: outcome.splits prod.splits option.splits sum.splits)
  apply (auto simp: same_config_def dest!: Acquire_frame Remove_segments Release_frame)
  done

lemma uncompact_disjoint:
  assumes u: "uncompact ctx name t = Returns (r, t')" and d: "tiers_disjoint t"
  shows "tiers_disjoint t'"
proof -
  from uncompact_tiers [OF u]
  consider "ldbSegments t' = ldbSegments t" "segments (segmentSet t') = segments (segmentSet t)"
    | "ldbSegments t' = AList.update name (ldb_next t) (ldbSegments t)"
      "segments (segmentSet t') = AList.delete name (segments (segmentSet t))"
    by blast
  then show ?thesis
  proof cases
    case 1
    with d show ?thesis by (simp add: tiers_disjoint_def ldb_names_def universe_names_def)
  next
    case 2
    then have "ldb_names t' = insert name (ldb_names t)" "universe_names t' = universe_names t - {name}"
      by (simp_all add: ldb_names_def universe_names_def keys_update keys_delete)
    with d show ?thesis unfolding tiers_disjoint_def by blast
  qed
qed

lemma CreateSegmentIfNotExists_config:
  "CreateSegmentIfNotExists F ctx name t = Returns (r, t') \<Longrightarrow> same_config t t'"
  by (auto simp: CreateSegmentIfNotExists_def new_LDBSegment_object_def Let_def andThen_def
      same_config_def split: outcome.splits option.splits if_splits sum.splits
      dest!: compact_config uncompact_tiers)

lemma CreateSegmentIfNotExists_disjoint:
  assumes "CreateSegmentIfNotExists F ctx name t = Returns (r, t')"
    and "compactor_keeps_names (SegmentCompactor t)" and "tiers_disjoint t"
  shows "tiers_disjoint t'"
proof (cases "map_of (ldbSegments t) name")
  case (Some p)
  with assms show ?thesis by (simp add: CreateSegmentIfNotExists_def)
next
  case None
  show ?thesis
  proof (cases "Contains name (segmentSet t)")
    case True
    with None assms show ?thesis
      by (auto simp: CreateSegmentIfNotExists_def dest: uncompact_disjoint)
  next
    case False
    then have "name \<notin> universe_names t"
      by (simp add: Contains_def map_of_eq_None_iff universe_names_def)
    with assms(3) have "insert name (ldb_names t) \<inter> universe_names t = {}"
      unfolding tiers_disjoint_def by blast
    then have fresh: "tiers_disjoint (t\<lparr>ldb_store := st, ldb_next := n,
        ldbSegments := AList.update name p (ldbSegments t), active := name\<rparr>)" for st n p
      by (simp add: tiers_disjoint_def ldb_names_simps universe_names_simps keys_update
          ldb_names_def [of t])
    show ?thesis
      using None False assms(1,2,3) fresh
      by (auto simp: CreateSegmentIfNotExists_def new_LDBSegment_object_def Let_def andThen_def
          split: outcome.splits option.splits if_splits sum.splits
          dest!: compact_disjoint)
  qed
qed

lemma tiers_by_file_type_disjoint: "tiers_by_file_type F t \<Longrightarrow> tiers_disjoint t"
  unfolding tiers_by_file_type_def tiers_disjoint_def by blast

lemma Open_loop_config: "same_config t (snd (Open_loop F names t))"
proof (induction names arbitrary: t)
  case Nil
  then show ?case by (simp add: same_config_def)
next
  case (Cons name names)
  have ldb: "same_config t (snd (Open_loop F names
               (set_active_if_greater name
                 ((snd (new_LDBSegment_object s t))
                    \<lparr>ldbSegments := AList.update name (ldb_next t) (ldbSegments t)\<rparr>))))" for s
    using Cons.IH [of "set_active_if_greater name
                 ((snd (new_LDBSegment_object s t))
                    \<lparr>ldbSegments := AList.update name (ldb_next t) (ldbSegments t)\<rparr>)"]
    by (auto simp: set_active_if_greater_def new_LDBSegment_object_def same_config_def split: if_splits)
  have seg: "same_config t (snd (Open_loop F names
               (set_active_if_greater name (t\<lparr>segmentSet := Add g (segmentSet t)\<rparr>))))" for g
    using Cons.IH [of "set_active_if_greater name (t\<lparr>segmentSet := Add g (segmentSet t)\<rparr>)"]
    by (auto simp: set_active_if_greater_def same_config_def split: if_splits)
  have refl: "same_config t t" "same_config t (Table_Close t)"
    by (simp_all add: same_config_def Table_Close_def)
  show ?case
    using Cons.IH [of t] ldb seg refl
    by (auto simp: Let_def split: sum.splits option.splits)
qed

lemma tiers_by_file_type_active:
  "tiers_by_file_type F (set_active_if_greater name t) = tiers_by_file_type F t"
  by (simp add: set_active_if_greater_def tiers_by_file_type_def ldb_names_def universe_names_def)

lemma Open_loop_tiers:
  "opener_keeps_names (SegmentOpener t) \<Longrightarrow> tiers_by_file_type F t \<Longrightarrow>
     tiers_by_file_type F (snd (Open_loop F names t))"
proof (induction names arbitrary: t)
  case Nil
  then show ?case by simp
next
  case (Cons name names)
  let ?path = "filepath_Join (Path t) name"
  have closed: "tiers_by_file_type F (Table_Close t)"
    using Cons.prems(2)
    by (simp add: tiers_by_file_type_def Table_Close_def SegmentSet_Close_def ldb_names_def
        universe_names_def)
  have ldb: "tiers_by_file_type F (snd (Open_loop F names
               (set_active_if_greater name
                 ((snd (new_LDBSegment_object s t))
                    \<lparr>ldbSegments := AList.update name (ldb_next t) (ldbSegments t)\<rparr>))))"
    if "fst (SegmentFileType F ?path) = SegmentLDB1 F" for s
  proof (rule Cons.IH)
    show "opener_keeps_names (SegmentOpener (set_active_if_greater name
                 ((snd (new_LDBSegment_object s t))
                    \<lparr>ldbSegments := AList.update name (ldb_next t) (ldbSegments t)\<rparr>)))"
      using Cons.prems(1) by (simp add: set_active_if_greater_def new_LDBSegment_object_def)
    show "tiers_by_file_type F (set_active_if_greater name
                 ((snd (new_LDBSegment_object s t))
                    \<lparr>ldbSegments := AList.update name (ldb_next t) (ldbSegments t)\<rparr>))"
      unfolding tiers_by_file_type_active
      using Cons.prems(2) that
      by (auto simp: tiers_by_file_type_def new_LDBSegment_object_def
          ldb_names_def universe_names_def keys_update)
  qed
  have seg: "tiers_by_file_type F (snd (Open_loop F names
               (set_active_if_greater name (t\<lparr>segmentSet := Add g (segmentSet t)\<rparr>))))"
    if "fst (SegmentFileType F ?path) \<noteq> SegmentLDB1 F"
      and "OpenSegmentFunc (SegmentOpener t) (Name t) name ?path = Inr g" for g
  proof (rule Cons.IH)
    show "opener_keeps_names (SegmentOpener (set_active_if_greater name
                 (t\<lparr>segmentSet := Add g (segmentSet t)\<rparr>)))"
      using Cons.prems(1) by (simp add: set_active_if_greater_def)
    from that(2) Cons.prems(1) have "NameFunc g = name"
      by (auto simp: opener_keeps_names_def)
    then show "tiers_by_file_type F (set_active_if_greater name
                 (t\<lparr>segmentSet := Add g (segmentSet t)\<rparr>))"
      unfolding tiers_by_file_type_active
      using Cons.prems(2) that(1)
      by (auto simp: tiers_by_file_type_def Add_def
          ldb_names_def universe_names_def keys_update)
  qed
  show ?case
    using Cons.IH [OF Cons.prems] Cons.prems closed ldb seg
    by (auto simp: Let_def split: sum.splits option.splits)
qed

lemma Open_disjoint:
  assumes "opener_keeps_names (SegmentOpener t)"
  shows "tiers_disjoint (snd (Open F t))"
proof -
  let ?t0 = "t\<lparr>ldbSegments := [], segmentSet := NewSegmentSet (MaxOpenSegmentCount t)\<rparr>"
  have t0: "tiers_by_file_type F ?t0"
    by (simp add: tiers_by_file_type_def ldb_names_def universe_names_def NewSegmentSet_def Let_def)
  have "opener_keeps_names (SegmentOpener ?t0)"
    using assms by simp
  from Open_loop_tiers [OF this t0] have "tiers_by_file_type F (snd (Open_loop F names ?t0))" for names .
  with t0 have "tiers_by_file_type F (snd (Open F t))"
    by (auto simp: Open_def Let_def split: option.splits sum.splits)
  then show ?thesis by (rule tiers_by_file_type_disjoint)
qed

lemma Open_config: "same_config t (snd (Open F t))"
proof -
  let ?t0 = "t\<lparr>ldbSegments := [], segmentSet := NewSegmentSet (MaxOpenSegmentCount t)\<rparr>"
  have "same_config ?t0 (snd (Open_loop F names ?t0))" for names
    by (rule Open_loop_config)
  then have "same_config t (snd (Open_loop F names ?t0))" for names
    by (simp add: same_config_def)
  moreover have "same_config t ?t0" by (simp add: same_config_def)
  ultimately show ?thesis
    by (auto simp: Open_def Let_def split: option.splits sum.splits)
qed

lemma same_config_trans: "same_config t t1 \<Longrightarrow> same_config t1 t2 \<Longrightarrow> same_config t t2"
  by (simp add: same_config_def)

lemma frame_disjoint:
  "only_segmentSet_changed t t' \<Longrightarrow> segments (segmentSet t') = segments (segmentSet t) \<Longrightarrow>
     tiers_disjoint t' = tiers_disjoint t"
  by (simp add: only_segmentSet_changed_def tiers_disjoint_def ldb_names_def universe_names_def)

lemma store_disjoint: "tiers_disjoint (t\<lparr>ldb_store := st\<rparr>) = tiers_disjoint t"
  by (simp add: tiers_disjoint_def ldb_names_def universe_names_def)

lemma tiers_disjoint_cong:
  "ldbSegments t' = ldbSegments t \<Longrightarrow> segments (segmentSet t') = segments (segmentSet t) \<Longrightarrow>
     tiers_disjoint t' = tiers_disjoint t"
  by (simp add: tiers_disjoint_def ldb_names_def universe_names_def)

lemma Get_then_Create_tiers:
  assumes g: "Get key t = Returns (g, t1)"
    and c: "CreateSegmentIfNotExists F ctx name t1 = Returns (s, t2)"
  shows "same_config t t2 \<and>
         (compactor_keeps_names (SegmentCompactor t) \<longrightarrow> tiers_disjoint t \<longrightarrow> tiers_disjoint t2)"
proof -
  note f = Get_frame [OF g]
  then have c1: "same_config t t1" "SegmentCompactor t1 = SegmentCompactor t"
    by (simp_all add: only_segmentSet_changed_def same_config_def)
  have d1: "tiers_disjoint t1 = tiers_disjoint t"
    using f by (simp add: frame_disjoint)
  from CreateSegmentIfNotExists_config [OF c] c1 have "same_config t t2"
    by (blast intro: same_config_trans)
  moreover have "tiers_disjoint t2"
    if "compactor_keeps_names (SegmentCompactor t)" "tiers_disjoint t"
    using CreateSegmentIfNotExists_disjoint [OF c] that c1 d1 by simp
  ultimately show ?thesis by blast
qed

lemma Get_config_disjoint:
  assumes g: "Get key t = Returns (g, t1)"
  shows "same_config t t1 \<and> (tiers_disjoint t \<longrightarrow> tiers_disjoint t1)"
  using Get_frame [OF g] frame_disjoint [of t t1] by (simp add: only_segmentSet_changed_def)

lemma Put_tiers:
  assumes "Put F key val t = Returns (r, t')"
  shows "same_config t t' \<and>
         (compactor_keeps_names (SegmentCompactor t) \<longrightarrow> tiers_disjoint t \<longrightarrow> tiers_disjoint t')"
proof -
  from assms obtain g t1 where g: "Get key t = Returns (g, t1)"
    by (auto simp: Put_def andThen_def split: outcome.splits)
  from assms g consider "t' = t1"
    | s t2 where "CreateSegmentIfNotExists F context_TODO (Partitioner t1 key) t1 = Returns (s, t2)"
        "t' = t2 \<or> (\<exists>st. t' = t2\<lparr>ldb_store := st\<rparr>)"
    by (auto simp: Put_def andThen_def split: outcome.splits prod.splits if_splits sum.splits)
  then show ?thesis
  proof cases
    case 1
    with Get_config_disjoint [OF g] show ?thesis by simp
  next
    case 2
    from Get_then_Create_tiers [OF g 2(1)] 2(2) show ?thesis
      by (auto simp: same_config_def store_disjoint)
  qed
qed

lemma Delete_tiers:
  "Delete key t = Returns (r, t') \<Longrightarrow>
     same_config t t' \<and> ldbSegments t' = ldbSegments t \<and>
     segments (segmentSet t') = segments (segmentSet t)"
  by (auto simp: Delete_def andThen_def only_segmentSet_changed_def same_config_def
      split: outcome.splits prod.splits option.splits acquired.splits
      dest!: AcquireSegment_frame ReleaseSegment_frame)

lemma tableBatch_Put_tiers:
  assumes "tableBatch_Put F key val tb = Returns (r, tb')"
  shows "same_config (fst tb) (fst tb') \<and>
         (compactor_keeps_names (SegmentCompactor (fst tb)) \<longrightarrow> tiers_disjoint (fst tb) \<longrightarrow>
            tiers_disjoint (fst tb'))"
proof -
  from assms obtain g t1 where g: "Get key (fst tb) = Returns (g, t1)"
    by (auto simp: tableBatch_Put_def andThen_def Let_def split: outcome.splits)
  from assms g consider "fst tb' = t1"
    | s t2 where "CreateSegmentIfNotExists F context_TODO (Partitioner t1 key) t1 = Returns (s, t2)"
        "fst tb' = t2"
    by (auto simp: tableBatch_Put_def andThen_def Let_def
        split: outcome.splits prod.splits if_splits sum.splits)
  then show ?thesis
  proof cases
    case 1
    with Get_config_disjoint [OF g] show ?thesis by simp
  next
    case 2
    from Get_then_Create_tiers [OF g 2(1)] 2(2) show ?thesis by simp
  qed
qed

lemma tableBatch_Delete_tiers:
  assumes "tableBatch_Delete F key tb = Returns (r, tb')"
  shows "same_config (fst tb) (fst tb') \<and>
         (compactor_keeps_names (SegmentCompactor (fst tb)) \<longrightarrow> tiers_disjoint (fst tb) \<longrightarrow>
            tiers_disjoint (fst tb'))"
proof -
  from assms obtain g t1 where g: "Get key (fst tb) = Returns (g, t1)"
    by (auto simp: tableBatch_Delete_def andThen_def Let_def split: outcome.splits)
  from assms g consider "fst tb' = t1"
    | s t2 where "CreateSegmentIfNotExists F context_TODO (Partitioner t1 key) t1 = Returns (s, t2)"
        "fst tb' = t2"
    by (auto simp: tableBatch_Delete_def andThen_def Let_def
        split: outcome.splits prod.splits if_splits sum.splits)
  then show ?thesis
  proof cases
    case 1
    with Get_config_disjoint [OF g] show ?thesis by simp
  next
    case 2
    from Get_then_Create_tiers [OF g 2(1)] 2(2) show ?thesis by simp
  qed
qed

lemma Write_loop_tiers:
  "same_config t (snd (Write_loop sbs t)) \<and>
   ldbSegments (snd (Write_loop sbs t)) = ldbSegments t \<and>
   segmentSet (snd (Write_loop sbs t)) = segmentSet t \<and>
   ldb_next (snd (Write_loop sbs t)) = ldb_next t"
proof (induction sbs arbitrary: t)
  case Nil
  then show ?case by (simp add: same_config_def)
next
  case (Cons sb sbs)
  from Cons [of "snd (ldbSegmentBatch_Write sb t)"] show ?case
    by (auto simp: ldbSegmentBatch_Write_def same_config_def split: if_splits)
qed

lemma exec_config: "exec F op tb = Returns tb' \<Longrightarrow> same_config (fst tb) (fst tb')"
proof (cases op)
  case OpOpen
  then show "exec F op tb = Returns tb' \<Longrightarrow> ?thesis"
    using Open_config [of "fst tb" F] by auto
next
  case OpClose
  then show "exec F op tb = Returns tb' \<Longrightarrow> ?thesis"
    by (auto simp: Table_Close_def same_config_def)
next
  case (OpHas key)
  then show "exec F op tb = Returns tb' \<Longrightarrow> ?thesis"
    by (auto simp: andThen_def only_segmentSet_changed_def split: outcome.splits dest!: Has_frame)
next
  case (OpGet key)
  then show "exec F op tb = Returns tb' \<Longrightarrow> ?thesis"
    by (auto simp: andThen_def only_segmentSet_changed_def split: outcome.splits dest!: Get_frame)
next
  case (OpPut key val)
  then show "exec F op tb = Returns tb' \<Longrightarrow> ?thesis"
    by (auto simp: andThen_def split: outcome.splits dest!: Put_tiers)
next
  case (OpDelete key)
  then show "exec F op tb = Returns tb' \<Longrightarrow> ?thesis"
    by (auto simp: andThen_def split: outcome.splits dest!: Delete_tiers)
next
  case (OpCompact ctx)
  then show "exec F op tb = Returns tb' \<Longrightarrow> ?thesis"
    by (auto simp: andThen_def Compact_def split: outcome.splits dest!: compact_config)
next
  case (OpCreateSegmentIfNotExists ctx name)
  then show "exec F op tb = Returns tb' \<Longrightarrow> ?thesis"
    by (auto simp: andThen_def split: outcome.splits dest!: CreateSegmentIfNotExists_config)
next
  case OpNewBatch
  then show "exec F op tb = Returns tb' \<Longrightarrow> ?thesis" by (auto simp: same_config_def)
next
  case (OpBatchPut key val)
  then show "exec F op tb = Returns tb' \<Longrightarrow> ?thesis"
    by (auto simp: andThen_def split: outcome.splits dest!: tableBatch_Put_tiers)
next
  case (OpBatchDelete key)
  then show "exec F op tb = Returns tb' \<Longrightarrow> ?thesis"
    by (auto simp: andThen_def split: outcome.splits dest!: tableBatch_Delete_tiers)
next
  case OpBatchWrite
  then show "exec F op tb = Returns tb' \<Longrightarrow> ?thesis"
    by (auto simp: tableBatch_Write_def Write_loop_tiers)
next
  case OpBatchReset
  then show "exec F op tb = Returns tb' \<Longrightarrow> ?thesis" by (auto simp: same_config_def)
qed

lemma exec_disjoint:
  assumes "exec F op tb = Returns tb'"
    and "compactor_keeps_names (SegmentCompactor (fst tb))"
    and "opener_keeps_names (SegmentOpener (fst tb))"
    and "tiers_disjoint (fst tb) \<or> op = OpOpen"
  shows "tiers_disjoint (fst tb')"
proof (cases op)
  case OpOpen
  then show ?thesis
    using assms(1,3) Open_disjoint [of "fst tb" F] by auto
next
  case OpClose
  then show ?thesis
    using assms(1,4)
    by (auto simp: Table_Close_def SegmentSet_Close_def tiers_disjoint_def ldb_names_def
        universe_names_def)
next
  case (OpHas key)
  then show ?thesis
    using assms(1,4)
    by (auto simp: andThen_def frame_disjoint split: outcome.splits dest!: Has_frame)
next
  case (OpGet key)
  then show ?thesis
    using assms(1,4)
    by (auto simp: andThen_def frame_disjoint split: outcome.splits dest!: Get_frame)
next
  case (OpPut key val)
  then show ?thesis
    using assms(1,2,4)
    by (auto simp: andThen_def split: outcome.splits dest!: Put_tiers)
next
  case (OpDelete key)
  then show ?thesis
    using assms(1,4)
    by (auto simp: andThen_def split: outcome.splits dest!: Delete_tiers dest: tiers_disjoint_cong)
next
  case (OpCompact ctx)
  then show ?thesis
    using assms(1,2,4)
    by (auto simp: andThen_def Compact_def split: outcome.splits dest: compact_disjoint)
next
  case (OpCreateSegmentIfNotExists ctx name)
  then show ?thesis
    using assms(1,2,4)
    by (auto simp: andThen_def split: outcome.splits dest: CreateSegmentIfNotExists_disjoint)
next
  case OpNewBatch
  then show ?thesis using assms(1,4) by auto
next
  case (OpBatchPut key val)
  then show ?thesis
    using assms(1,2,4)
    by (auto simp: andThen_def split: outcome.splits dest!: tableBatch_Put_tiers)
next
  case (OpBatchDelete key)
  then show ?thesis
    using assms(1,2,4)
    by (auto simp: andThen_def split: outcome.splits dest!: tableBatch_Delete_tiers)
next
  case OpBatchWrite
  then show ?thesis
    using assms(1,4) tiers_disjoint_cong [of "snd (tableBatch_Write tb)" "fst tb"]
    by (auto simp: tableBatch_Write_def Write_loop_tiers)
next
  case OpBatchReset
  then show ?thesis using assms(1,4) by auto
qed

text \<open>
  C6. Provided the compactor returns a segment under the name of the one it compacted and
  the opener a segment under the name it was asked for, after every operation of a run
  that completes no name is in both \<open>ldbSegments\<close> and the universe of the segment
  set. The run starts with \<^verbatim>\<open>Open\<close>, or from a table whose tiers are disjoint.
\<close>

theorem tiers_stay_disjoint:
  assumes "compactor_keeps_names (SegmentCompactor (fst tb))"
    and "opener_keeps_names (SegmentOpener (fst tb))"
    and "tiers_disjoint (fst tb) \<or> (\<exists>rest. ops = OpOpen # rest)"
  shows "\<forall>tb' \<in> set (run F ops tb). tiers_disjoint (fst tb')"
  using assms
proof (induction ops arbitrary: tb)
  case Nil
  then show ?case by simp
next
  case (Cons op ops)
  show ?case
  proof (cases "exec F op tb")
    case (Returns tb')
    from Cons.prems(3) have "tiers_disjoint (fst tb) \<or> op = OpOpen" by auto
    from exec_disjoint [OF Returns Cons.prems(1,2) this] have d: "tiers_disjoint (fst tb')" .
    from exec_config [OF Returns] Cons.prems(1,2)
    have "compactor_keeps_names (SegmentCompactor (fst tb'))"
      "opener_keeps_names (SegmentOpener (fst tb'))"
      by (simp_all add: same_config_def)
    from Cons.IH [OF this] d have "\<forall>x \<in> set (run F ops tb'). tiers_disjoint (fst x)"
      by blast
    with d Returns show ?thesis by simp
  qed simp_all
qed

theorem tiers_stay_disjoint_example:
  "map (\<lambda>tb. (map fst (ldbSegments (fst tb)), map fst (segments (segmentSet (fst tb)))))
     (run example_fs
        [OpOpen, OpPut [1, 1] (Some [7]), OpPut [2, 1] (Some [8]), OpPut [1, 2] (Some [9])]
        (example_table, NewBatch)) =
     [([], []), ([''01''], []), ([''02''], [''01'']), ([''02'', ''01''], [])] \<and>
   list_all (\<lambda>tb. tiers_disjoint (fst tb))
     (run example_fs
        [OpOpen, OpPut [1, 1] (Some [7]), OpPut [2, 1] (Some [8]), OpPut [1, 2] (Some [9])]
        (example_table, NewBatch))"
proof -
  have c: "compactor_keeps_names (SegmentCompactor (fst (example_table, NewBatch)))"
    by (simp add: compactor_keeps_names_def example_defs)
  have o: "opener_keeps_names (SegmentOpener (fst (example_table, NewBatch)))"
    by (simp add: opener_keeps_names_def example_defs)
  have s: "tiers_disjoint (fst (example_table, NewBatch)) \<or>
      (\<exists>rest. [OpOpen, OpPut [1, 1] (Some [7]), OpPut [2, 1] (Some [8]), OpPut [1, 2] (Some [9])] =
         OpOpen # rest)"
    by simp
  have r: "map (\<lambda>tb. (map fst (ldbSegments (fst tb)), map fst (segments (segmentSet (fst tb)))))
     (run example_fs
        [OpOpen, OpPut [1, 1] (Some [7]), OpPut [2, 1] (Some [8]), OpPut [1, 2] (Some [9])]
        (example_table, NewBatch)) =
     [([], []), ([''01''], []), ([''02''], [''01'']), ([''02'', ''01''], [])]"
    by (simp add: table_defs example_defs Open_def)
  from tiers_stay_disjoint [OF c o s, of example_fs] r show ?thesis
    by (simp add: list_all_iff)
qed

subsection \<open>The well-formed table\<close>

lemma set_update_subset: "set (AList.update k v xs) \<subseteq> insert (k, v) (set xs)"
  by (induction xs) auto

lemma set_delete_subset: "set (AList.delete k xs) \<subseteq> set xs"
  by (induction xs) auto

lemma set_lru_Add_subset: "set (lru_Add cap k v c) \<subseteq> insert (k, v) (set c)"
proof -
  have "x \<in> insert (k, v) (set c)" if "x \<in> set (butlast ((k, v) # c))" for x
    using in_set_butlastD [OF that] by simp
  then have "set (butlast ((k, v) # c)) \<subseteq> insert (k, v) (set c)"
    by blast
  then show ?thesis
    using set_delete_subset [of k c]
    by (auto simp: lru_Add_def split: option.splits)
qed

lemma segment_set_wf_Add: "segment_set_wf ss \<Longrightarrow> segment_set_wf (Add s ss)"
  using set_update_subset [of "NameFunc s" s "segments ss"]
  by (auto simp: segment_set_wf_def Add_def)

lemma segment_set_wf_cong:
  "set (segments ss') \<subseteq> set (segments ss) \<Longrightarrow> set (cache ss') \<subseteq> set (cache ss) \<Longrightarrow>
   segment_set_wf ss \<Longrightarrow> segment_set_wf ss'"
  by (auto simp: segment_set_wf_def)

lemma Release_wf: "Release ss = Returns ss' \<Longrightarrow> segment_set_wf ss \<Longrightarrow> segment_set_wf ss'"
  by (auto simp: Release_def semaphore_Release_def segment_set_wf_def split: if_splits)

lemma Remove_wf: "Remove ctx name ss = Returns ss' \<Longrightarrow> segment_set_wf ss \<Longrightarrow> segment_set_wf ss'"
  using set_delete_subset [of name "segments ss"] set_delete_subset [of name "cache ss"]
  by (auto simp: Remove_def semaphore_Acquire_def semaphore_Release_def andThen_def Let_def
      lru_Remove_def segment_set_wf_def split: if_splits option.splits)

lemma Acquire_wf:
  assumes a: "Acquire name ss = Returns (r, ss')" and wf: "segment_set_wf ss"
  shows "segment_set_wf ss' \<and> (\<forall>s. fst r = Some s \<longrightarrow> NameFunc s = name)"
proof -
  have hit: "NameFunc s = name \<and> segment_set_wf (ss\<lparr>semaphore_cur := n, cache := (name, s) # AList.delete name (cache ss)\<rparr>)"
    if "map_of (cache ss) name = Some s" for s n
  proof -
    from that have "(name, s) \<in> set (cache ss)" by (rule map_of_SomeD)
    then show ?thesis
      using wf set_delete_subset [of name "cache ss"] by (auto simp: segment_set_wf_def)
  qed
  have miss: "NameFunc s = name \<and> segment_set_wf (ss\<lparr>semaphore_cur := n, cache := lru_Add (cache_size ss) name s (cache ss)\<rparr>)"
    if "map_of (segments ss) name = Some s" for s n
  proof -
    from that have "(name, s) \<in> set (segments ss)" by (rule map_of_SomeD)
    then show ?thesis
      using wf set_lru_Add_subset [of "cache_size ss" name s "cache ss"]
      by (auto simp: segment_set_wf_def)
  qed
  have same: "segment_set_wf (ss\<lparr>semaphore_cur := n\<rparr>)" for n
    using wf by (simp add: segment_set_wf_def)
  show ?thesis
    using a hit miss same wf
    by (auto simp: Acquire_def semaphore_Acquire_def semaphore_Release_def andThen_def lru_Get_def
        context_Background_def split: if_splits option.splits)
qed

lemma mutable_tier_wf_frame:
  "only_segmentSet_changed t t' \<Longrightarrow> mutable_tier_wf t' = mutable_tier_wf t"
  by (simp add: only_segmentSet_changed_def mutable_tier_wf_def)

lemma mutable_tier_wf_segmentSet [simp]:
  "mutable_tier_wf (t\<lparr>segmentSet := ss\<rparr>) = mutable_tier_wf t"
  by (simp add: mutable_tier_wf_def)

lemma mutable_tier_wf_active [simp]:
  "mutable_tier_wf (t\<lparr>active := a\<rparr>) = mutable_tier_wf t"
  by (simp add: mutable_tier_wf_def)

lemma mutable_tier_wf_store:
  "mutable_tier_wf t \<Longrightarrow> (\<And>p. ldb_name (st p) = ldb_name (ldb_store t p)) \<Longrightarrow>
   mutable_tier_wf (t\<lparr>ldb_store := st\<rparr>)"
  by (simp add: mutable_tier_wf_def)

lemma distinct_keys_update: "distinct (map fst xs) \<Longrightarrow> distinct (map fst (AList.update k v xs))"
  by (simp add: distinct_update)

lemma distinct_keys_delete: "distinct (map fst xs) \<Longrightarrow> distinct (map fst (AList.delete k xs))"
  by (simp add: distinct_delete)

lemma mutable_tier_wf_install:
  assumes wf: "mutable_tier_wf t" and n: "ldb_name s = name"
  shows "mutable_tier_wf
           (t\<lparr>ldb_store := (ldb_store t)(ldb_next t := s), ldb_next := Suc (ldb_next t),
              ldbSegments := AList.update name (ldb_next t) (ldbSegments t)\<rparr>)"
proof -
  have "e = (name, ldb_next t) \<or> e \<in> set (ldbSegments t)"
    if "e \<in> set (AList.update name (ldb_next t) (ldbSegments t))" for e
    using that set_update_subset [of name "ldb_next t" "ldbSegments t"] by auto
  then show ?thesis
    using wf n by (fastforce simp: mutable_tier_wf_def distinct_keys_update)
qed

lemma mutable_tier_wf_delete:
  assumes wf: "mutable_tier_wf t"
  shows "mutable_tier_wf (t\<lparr>ldbSegments := AList.delete k (ldbSegments t)\<rparr>)"
  using wf set_delete_subset [of k "ldbSegments t"]
  by (auto simp: mutable_tier_wf_def distinct_keys_delete)

lemma LDBSegment_Close_name [simp]: "ldb_name (LDBSegment_Close s) = ldb_name s"
  by (simp add: LDBSegment_Close_def)

lemma table_wf_compact_loop:
  assumes "table_wf t"
  shows "table_wf (snd (compact_loop F ctx ps t))"
proof (rule compact_loop_preserves [where P = table_wf])
  show "table_wf t" by fact
next
  fix t p
  assume "table_wf t"
  then show "table_wf (t\<lparr>ldb_store := (ldb_store t)(p := LDBSegment_Close (ldb_store t p))\<rparr>)"
    by (simp add: table_wf_def mutable_tier_wf_store)
next
  fix t p new
  assume "table_wf t"
  then show "table_wf (t\<lparr>segmentSet := Add new (segmentSet t),
                ldbSegments := AList.delete (ldb_name (ldb_store t p)) (ldbSegments t)\<rparr>)"
    using mutable_tier_wf_delete [of t "ldb_name (ldb_store t p)"]
    by (simp add: table_wf_def segment_set_wf_Add mutable_tier_wf_def)
qed

lemma table_wf_compact: "compact F ctx t = Returns (r, t') \<Longrightarrow> table_wf t \<Longrightarrow> table_wf t'"
  by (auto simp: compact_def Let_def split: if_splits)
    (metis table_wf_compact_loop snd_conv)

lemma table_wf_frame:
  assumes "only_segmentSet_changed t t'" and "segment_set_wf (segmentSet t) \<Longrightarrow> segment_set_wf (segmentSet t')"
    and "table_wf t"
  shows "table_wf t'"
  using assms by (simp add: table_wf_def mutable_tier_wf_frame)

lemma AcquireSegment_wf:
  assumes a: "AcquireSegment name t = Returns (r, t')" and wf: "table_wf t"
  shows "table_wf t'"
proof (cases "map_of (ldbSegments t) name")
  case (Some p)
  with a wf show ?thesis by (simp add: AcquireSegment_def)
next
  case None
  with a obtain r' ss where acq: "Acquire name (segmentSet t) = Returns (r', ss)"
    and t': "t' = t\<lparr>segmentSet := ss\<rparr>"
    by (auto simp: AcquireSegment_def andThen_def split: outcome.splits)
  from Acquire_wf [OF acq] wf show ?thesis
    by (simp add: t' table_wf_def)
qed

lemma ReleaseSegment_wf:
  assumes "ReleaseSegment s t = Returns t'" and "table_wf t"
  shows "table_wf t'"
  using assms
  by (cases s) (auto simp: ReleaseSegment_def andThen_def table_wf_def split: outcome.splits
      dest: Release_wf)

lemma Get_wf: "Get key t = Returns (r, t') \<Longrightarrow> table_wf t \<Longrightarrow> table_wf t'"
  by (auto simp: Get_def andThen_def split: outcome.splits option.splits prod.splits
      dest: AcquireSegment_wf ReleaseSegment_wf)

lemma Has_wf: "Has key t = Returns (r, t') \<Longrightarrow> table_wf t \<Longrightarrow> table_wf t'"
  by (auto simp: Has_def andThen_def split: outcome.splits option.splits prod.splits
      dest: AcquireSegment_wf ReleaseSegment_wf)

lemma uncompact_wf:
  assumes u: "uncompact ctx name t = Returns (r, t')" and wf: "table_wf t"
    and c: "uncompactor_keeps_names (SegmentCompactor t)"
    and known: "Contains name (segmentSet t)"
  shows "table_wf t'"
proof -
  from u obtain a ss1 where acq: "Acquire name (segmentSet t) = Returns (a, ss1)"
    by (auto simp: uncompact_def andThen_def split: outcome.splits)
  note w1 = Acquire_wf [OF acq] 
  have ss1: "segment_set_wf ss1" and nm: "\<And>s. fst a = Some s \<Longrightarrow> NameFunc s = name"
    using w1 wf by (simp_all add: table_wf_def)
  have seg1: "segments ss1 = segments (segmentSet t)"
    using Acquire_frame [OF acq] by simp
  show ?thesis
  proof (cases "snd a")
    case (Some err)
    with u acq have "t' = t\<lparr>segmentSet := ss1\<rparr>"
      by (cases a) (auto simp: uncompact_def andThen_def)
    with wf ss1 show ?thesis by (simp add: table_wf_def)
  next
    case None
    have present: "fst a \<noteq> None"
    proof
      assume "fst a = None"
      with acq None known show False
        by (cases a)
          (auto simp: Acquire_def semaphore_Acquire_def semaphore_Release_def andThen_def
            lru_Get_def context_Background_def Contains_def split: if_splits option.splits)
    qed
    then obtain g where g: "fst a = Some g" by blast
    show ?thesis
    proof (cases "UncompactSegmentFunc (SegmentCompactor t) ctx (Name t) (fst a)")
      case (Inl err)
      with u acq None obtain ss2 where "Release ss1 = Returns ss2" "t' = t\<lparr>segmentSet := ss2\<rparr>"
        by (cases a) (auto simp: uncompact_def andThen_def split: outcome.splits)
      with wf ss1 Release_wf show ?thesis by (auto simp: table_wf_def)
    next
      case (Inr s)
      have name: "ldb_name s = name"
        using Inr g c nm [OF g] by (auto simp: uncompactor_keeps_names_def)
      let ?t2 = "t\<lparr>ldb_store := (ldb_store t)(ldb_next t := s), ldb_next := Suc (ldb_next t),
                    ldbSegments := AList.update name (ldb_next t) (ldbSegments t)\<rparr>"
      from u acq None Inr obtain ss3 ss4 where
        rm: "Remove ctx name ss1 = Returns ss3" and rl: "Release ss3 = Returns ss4"
        and t': "t' = ?t2\<lparr>segmentSet := ss4\<rparr>"
        by (cases a)
          (auto simp: uncompact_def andThen_def new_LDBSegment_object_def Let_def
            split: outcome.splits)
      have "segment_set_wf ss4"
        using Release_wf [OF rl Remove_wf [OF rm ss1]] .
      moreover have "mutable_tier_wf ?t2"
        using wf name by (intro mutable_tier_wf_install) (simp_all add: table_wf_def)
      ultimately show ?thesis
        by (simp add: t' table_wf_def)
    qed
  qed
qed

lemma LDBSegment_Open_name:
  "LDBSegment_Open F (NewLDBSegment name path) = Inr s \<Longrightarrow> ldb_name s = name"
  by (auto simp: LDBSegment_Open_def NewLDBSegment_def split: sum.splits)

lemma CreateSegmentIfNotExists_wf:
  assumes c: "CreateSegmentIfNotExists F ctx name t = Returns (r, t')" and wf: "table_wf t"
    and k: "uncompactor_keeps_names (SegmentCompactor t)"
  shows "table_wf t'"
proof (cases "map_of (ldbSegments t) name")
  case (Some p)
  with c wf show ?thesis by (simp add: CreateSegmentIfNotExists_def)
next
  case None
  show ?thesis
  proof (cases "Contains name (segmentSet t)")
    case True
    with None c have "uncompact ctx name t = Returns (r, t')"
      by (simp add: CreateSegmentIfNotExists_def)
    from uncompact_wf [OF this wf k True] show ?thesis .
  next
    case False
    show ?thesis
    proof (cases "name < active t")
      case True
      with None False c wf show ?thesis by (simp add: CreateSegmentIfNotExists_def)
    next
      case above: False
      show ?thesis
      proof (cases "LDBSegment_Open F (NewLDBSegment name (SegmentPath t name))")
        case (Inl err)
        with None False above c wf show ?thesis by (simp add: CreateSegmentIfNotExists_def)
      next
        case (Inr s)
        let ?t2 = "t\<lparr>ldb_store := (ldb_store t)(ldb_next t := s), ldb_next := Suc (ldb_next t),
                      ldbSegments := AList.update name (ldb_next t) (ldbSegments t), active := name\<rparr>"
        from c None False above Inr obtain e where cp: "compact F ctx ?t2 = Returns (e, t')"
          by (auto simp: CreateSegmentIfNotExists_def new_LDBSegment_object_def Let_def andThen_def
              split: outcome.splits option.splits)
        have "mutable_tier_wf
                (t\<lparr>ldb_store := (ldb_store t)(ldb_next t := s), ldb_next := Suc (ldb_next t),
                   ldbSegments := AList.update name (ldb_next t) (ldbSegments t)\<rparr>)"
          using wf LDBSegment_Open_name [OF Inr]
          by (intro mutable_tier_wf_install) (simp_all add: table_wf_def)
        then have "table_wf ?t2"
          using wf by (simp add: table_wf_def mutable_tier_wf_def)
        from table_wf_compact [OF cp this] show ?thesis .
      qed
    qed
  qed
qed

lemma LDBSegment_Put_name [simp]: "ldb_name (snd (LDBSegment_Put s key val)) = ldb_name s"
  by (simp add: LDBSegment_Put_def)

lemma LDBSegment_Delete_name [simp]: "ldb_name (snd (LDBSegment_Delete s key)) = ldb_name s"
  by (simp add: LDBSegment_Delete_def)

lemma table_wf_store:
  "table_wf t \<Longrightarrow> (\<And>p. ldb_name (st p) = ldb_name (ldb_store t p)) \<Longrightarrow>
   table_wf (t\<lparr>ldb_store := st\<rparr>)"
  by (simp add: table_wf_def mutable_tier_wf_store)

lemma same_config_compactor: "same_config t t' \<Longrightarrow> SegmentCompactor t' = SegmentCompactor t"
  by (simp add: same_config_def)

lemma Get_then_Create_wf:
  assumes g: "Get key t = Returns (g, t1)"
    and c: "CreateSegmentIfNotExists F ctx name t1 = Returns (s, t2)"
    and wf: "table_wf t" and k: "uncompactor_keeps_names (SegmentCompactor t)"
  shows "table_wf t2"
proof -
  have "SegmentCompactor t1 = SegmentCompactor t"
    using Get_frame [OF g] by (simp add: only_segmentSet_changed_def same_config_def)
  with CreateSegmentIfNotExists_wf [OF c Get_wf [OF g wf]] k show ?thesis by simp
qed

lemma Put_wf:
  assumes p: "Put F key val t = Returns (r, t')" and wf: "table_wf t"
    and k: "uncompactor_keeps_names (SegmentCompactor t)"
  shows "table_wf t'"
proof -
  from p obtain g t1 where g: "Get key t = Returns (g, t1)"
    by (auto simp: Put_def andThen_def split: outcome.splits)
  from p g consider "t' = t1"
    | s t2 where "CreateSegmentIfNotExists F context_TODO (Partitioner t1 key) t1 = Returns (s, t2)"
        "t' = t2 \<or> (\<exists>q. t' = t2\<lparr>ldb_store := (ldb_store t2)(q := snd (LDBSegment_Put (ldb_store t2 q) key val))\<rparr>)"
    by (auto simp: Put_def andThen_def split: outcome.splits prod.splits if_splits sum.splits)
  then show ?thesis
  proof cases
    case 1
    with Get_wf [OF g wf] show ?thesis by simp
  next
    case 2
    from Get_then_Create_wf [OF g 2(1) wf k] have w2: "table_wf t2" .
    from 2(2) show ?thesis
    proof
      assume "t' = t2" with w2 show ?thesis by simp
    next
      assume "\<exists>q. t' = t2\<lparr>ldb_store := (ldb_store t2)(q := snd (LDBSegment_Put (ldb_store t2 q) key val))\<rparr>"
      then obtain q where "t' = t2\<lparr>ldb_store := (ldb_store t2)(q := snd (LDBSegment_Put (ldb_store t2 q) key val))\<rparr>"
        by blast
      with w2 show ?thesis by (simp add: table_wf_store)
    qed
  qed
qed

lemma Delete_wf:
  assumes d: "Delete key t = Returns (r, t')" and wf: "table_wf t"
  shows "table_wf t'"
proof -
  from d obtain a t1 where a: "AcquireSegment (Partitioner t key) t = Returns (a, t1)"
    by (auto simp: Delete_def andThen_def split: outcome.splits)
  note w1 = AcquireSegment_wf [OF a wf]
  have store: "table_wf (t1\<lparr>ldb_store := (ldb_store t1)(q := snd (LDBSegment_Delete (ldb_store t1 q) key))\<rparr>)" for q
    using w1 by (simp add: table_wf_store)
  show ?thesis
    using d a w1 store
    by (auto simp: Delete_def andThen_def split: outcome.splits option.splits acquired.splits
        dest: ReleaseSegment_wf)
qed

lemma tableBatch_Put_wf:
  assumes p: "tableBatch_Put F key val tb = Returns (r, tb')" and wf: "table_wf (fst tb)"
    and k: "uncompactor_keeps_names (SegmentCompactor (fst tb))"
  shows "table_wf (fst tb')"
proof -
  from p obtain g t1 where g: "Get key (fst tb) = Returns (g, t1)"
    by (auto simp: tableBatch_Put_def andThen_def Let_def split: outcome.splits)
  from p g consider "fst tb' = t1"
    | s t2 where "CreateSegmentIfNotExists F context_TODO (Partitioner t1 key) t1 = Returns (s, t2)"
        "fst tb' = t2"
    by (auto simp: tableBatch_Put_def andThen_def Let_def
        split: outcome.splits prod.splits if_splits sum.splits)
  then show ?thesis
  proof cases
    case 1
    with Get_wf [OF g wf] show ?thesis by simp
  next
    case 2
    from Get_then_Create_wf [OF g 2(1) wf k] 2(2) show ?thesis by simp
  qed
qed

lemma tableBatch_Delete_wf:
  assumes p: "tableBatch_Delete F key tb = Returns (r, tb')" and wf: "table_wf (fst tb)"
    and k: "uncompactor_keeps_names (SegmentCompactor (fst tb))"
  shows "table_wf (fst tb')"
proof -
  from p obtain g t1 where g: "Get key (fst tb) = Returns (g, t1)"
    by (auto simp: tableBatch_Delete_def andThen_def Let_def split: outcome.splits)
  from p g consider "fst tb' = t1"
    | s t2 where "CreateSegmentIfNotExists F context_TODO (Partitioner t1 key) t1 = Returns (s, t2)"
        "fst tb' = t2"
    by (auto simp: tableBatch_Delete_def andThen_def Let_def
        split: outcome.splits prod.splits if_splits sum.splits)
  then show ?thesis
  proof cases
    case 1
    with Get_wf [OF g wf] show ?thesis by simp
  next
    case 2
    from Get_then_Create_wf [OF g 2(1) wf k] 2(2) show ?thesis by simp
  qed
qed

lemma foldl_apply_batch_op_name [simp]:
  "ldb_name (foldl apply_batch_op s ops) = ldb_name s"
  by (induction ops arbitrary: s) (simp_all add: apply_batch_op_def split: batch_op.splits)

lemma Write_loop_wf: "table_wf t \<Longrightarrow> table_wf (snd (Write_loop sbs t))"
proof (induction sbs arbitrary: t)
  case Nil
  then show ?case by simp
next
  case (Cons sb sbs)
  have "table_wf (t\<lparr>ldb_store := (ldb_store t)
           (target sb := foldl apply_batch_op (ldb_store t (target sb)) (pending sb))\<rparr>)"
    using Cons.prems by (simp add: table_wf_store)
  from Cons.IH [OF this] Cons.prems show ?case
    by (auto simp: ldbSegmentBatch_Write_def split: if_splits)
qed

lemma foldl_Close_name:
  "ldb_name (foldl (\<lambda>st e. st(snd e := LDBSegment_Close (st (snd e)))) st es p) = ldb_name (st p)"
  by (induction es arbitrary: st) simp_all

lemma Table_Close_wf: "table_wf t \<Longrightarrow> table_wf (Table_Close t)"
  by (simp add: Table_Close_def table_wf_def mutable_tier_wf_def foldl_Close_name
      segment_set_wf_def SegmentSet_Close_def)

lemma table_wf_active: "table_wf (set_active_if_greater name t) = table_wf t"
  by (simp add: set_active_if_greater_def table_wf_def)

lemma Open_loop_wf: "table_wf t \<Longrightarrow> table_wf (snd (Open_loop F names t))"
proof (induction names arbitrary: t)
  case Nil
  then show ?case by simp
next
  case (Cons name names)
  let ?path = "filepath_Join (Path t) name"
  have ldb: "table_wf (snd (Open_loop F names
               (set_active_if_greater name
                 ((snd (new_LDBSegment_object s t))
                    \<lparr>ldbSegments := AList.update name (ldb_next t) (ldbSegments t)\<rparr>))))"
    if "LDBSegment_Open F (NewLDBSegment name ?path) = Inr s" for s
  proof (rule Cons.IH)
    have "mutable_tier_wf
            (t\<lparr>ldb_store := (ldb_store t)(ldb_next t := s), ldb_next := Suc (ldb_next t),
               ldbSegments := AList.update name (ldb_next t) (ldbSegments t)\<rparr>)"
      using Cons.prems LDBSegment_Open_name [OF that]
      by (intro mutable_tier_wf_install) (simp_all add: table_wf_def)
    then show "table_wf (set_active_if_greater name
                 ((snd (new_LDBSegment_object s t))
                    \<lparr>ldbSegments := AList.update name (ldb_next t) (ldbSegments t)\<rparr>))"
      unfolding table_wf_active
      using Cons.prems by (simp add: table_wf_def new_LDBSegment_object_def)
  qed
  have seg: "table_wf (snd (Open_loop F names
               (set_active_if_greater name (t\<lparr>segmentSet := Add g (segmentSet t)\<rparr>))))" for g
  proof (rule Cons.IH)
    show "table_wf (set_active_if_greater name (t\<lparr>segmentSet := Add g (segmentSet t)\<rparr>))"
      unfolding table_wf_active
      using Cons.prems by (simp add: table_wf_def segment_set_wf_Add)
  qed
  show ?case
    using Cons.IH [OF Cons.prems] Cons.prems Table_Close_wf [OF Cons.prems] ldb seg
    by (auto simp: Let_def split: sum.splits option.splits)
qed

lemma Open_wf: "table_wf (snd (Open F t))"
proof -
  let ?t0 = "t\<lparr>ldbSegments := [], segmentSet := NewSegmentSet (MaxOpenSegmentCount t)\<rparr>"
  have t0: "table_wf ?t0"
    by (simp add: table_wf_def mutable_tier_wf_def segment_set_wf_def NewSegmentSet_def Let_def)
  from Open_loop_wf [OF this] have "table_wf (snd (Open_loop F names ?t0))" for names .
  with t0 show ?thesis
    by (auto simp: Open_def Let_def split: option.splits sum.splits)
qed

lemma exec_wf:
  assumes "exec F op tb = Returns tb'"
    and "uncompactor_keeps_names (SegmentCompactor (fst tb))"
    and "table_wf (fst tb) \<or> op = OpOpen"
  shows "table_wf (fst tb')"
proof (cases op)
  case OpOpen
  then show ?thesis
    using assms(1) Open_wf [of F "fst tb"] by auto
next
  case OpClose
  then show ?thesis
    using assms(1,3) by (auto simp: Table_Close_wf)
next
  case (OpHas key)
  then show ?thesis
    using assms(1,3) by (auto simp: andThen_def split: outcome.splits dest: Has_wf)
next
  case (OpGet key)
  then show ?thesis
    using assms(1,3) by (auto simp: andThen_def split: outcome.splits dest: Get_wf)
next
  case (OpPut key val)
  then show ?thesis
    using assms by (auto simp: andThen_def split: outcome.splits dest: Put_wf)
next
  case (OpDelete key)
  then show ?thesis
    using assms(1,3) by (auto simp: andThen_def split: outcome.splits dest: Delete_wf)
next
  case (OpCompact ctx)
  then show ?thesis
    using assms(1,3)
    by (auto simp: andThen_def Compact_def split: outcome.splits dest: table_wf_compact)
next
  case (OpCreateSegmentIfNotExists ctx name)
  then show ?thesis
    using assms
    by (auto simp: andThen_def split: outcome.splits dest: CreateSegmentIfNotExists_wf)
next
  case OpNewBatch
  then show ?thesis using assms(1,3) by auto
next
  case (OpBatchPut key val)
  then show ?thesis
    using assms by (auto simp: andThen_def split: outcome.splits dest: tableBatch_Put_wf)
next
  case (OpBatchDelete key)
  then show ?thesis
    using assms by (auto simp: andThen_def split: outcome.splits dest: tableBatch_Delete_wf)
next
  case OpBatchWrite
  then show ?thesis
    using assms(1,3) by (auto simp: tableBatch_Write_def Write_loop_wf)
next
  case OpBatchReset
  then show ?thesis using assms(1,3) by auto
qed

text \<open>
  Every state of a run that starts with \<^verbatim>\<open>Open\<close>, or from a well-formed table, is
  well formed, and has the collaborators the run started with.
\<close>

lemma run_config: "tb' \<in> set (run F ops tb) \<Longrightarrow> same_config (fst tb) (fst tb')"
proof (induction ops arbitrary: tb)
  case Nil
  then show ?case by simp
next
  case (Cons op ops)
  show ?case
  proof (cases "exec F op tb")
    case (Returns tb1)
    note c1 = exec_config [OF Returns]
    from Cons.prems Returns have "tb' = tb1 \<or> tb' \<in> set (run F ops tb1)" by simp
    then show ?thesis
      using c1 Cons.IH [of tb1] by (auto intro: same_config_trans)
  next
    case Blocks
    with Cons.prems show ?thesis by simp
  next
    case Panics
    with Cons.prems show ?thesis by simp
  qed
qed

lemma run_wf:
  assumes "uncompactor_keeps_names (SegmentCompactor (fst tb))"
    and "table_wf (fst tb) \<or> (\<exists>rest. ops = OpOpen # rest)"
    and "tb' \<in> set (run F ops tb)"
  shows "table_wf (fst tb')"
  using assms
proof (induction ops arbitrary: tb)
  case Nil
  then show ?case by simp
next
  case (Cons op ops)
  show ?case
  proof (cases "exec F op tb")
    case (Returns tb1)
    from Cons.prems(2) have "table_wf (fst tb) \<or> op = OpOpen" by auto
    from exec_wf [OF Returns Cons.prems(1) this] have w1: "table_wf (fst tb1)" .
    from exec_config [OF Returns] Cons.prems(1)
    have k1: "uncompactor_keeps_names (SegmentCompactor (fst tb1))"
      by (simp add: same_config_def)
    from Cons.prems(3) Returns have "tb' = tb1 \<or> tb' \<in> set (run F ops tb1)" by simp
    then show ?thesis
    proof
      assume "tb' = tb1" with w1 show ?thesis by simp
    next
      assume "tb' \<in> set (run F ops tb1)"
      with Cons.IH [OF k1 _ this] w1 show ?thesis by blast
    qed
  next
    case Blocks
    with Cons.prems(3) show ?thesis by simp
  next
    case Panics
    with Cons.prems(3) show ?thesis by simp
  qed
qed

subsection \<open>Compaction\<close>

lemma insort_key_map:
  "insort_key f (g x) (map g ys) = map g (insort_key (\<lambda>y. f (g y)) x ys)"
  by (induction ys) simp_all

lemma sort_key_map: "sort_key f (map g xs) = map g (sort_key (\<lambda>y. f (g y)) xs)"
  by (induction xs) (simp_all add: insort_key_map)

lemma insort_key_cong_on:
  "f x = g x \<Longrightarrow> (\<And>y. y \<in> set ys \<Longrightarrow> f y = g y) \<Longrightarrow> insort_key f x ys = insort_key g x ys"
  by (induction ys) simp_all

lemma sort_key_cong_on:
  "(\<And>x. x \<in> set xs \<Longrightarrow> f x = g x) \<Longrightarrow> sort_key f xs = sort_key g xs"
proof (induction xs)
  case Nil
  then show ?case by simp
next
  case (Cons x xs)
  have "sort_key f xs = sort_key g xs"
    using Cons by simp
  moreover have "insort_key f x (sort_key g xs) = insort_key g x (sort_key g xs)"
    using Cons.prems by (intro insort_key_cong_on) simp_all
  ultimately show ?case by simp
qed

lemma ldbSegmentSlice_by_name:
  assumes "mutable_tier_wf t"
  shows "ldbSegmentSlice t = map snd (mutable_segments_by_name t)"
proof -
  have "sort_key (\<lambda>e. ldb_name (ldb_store t (snd e))) (ldbSegments t) = sort_key fst (ldbSegments t)"
    using assms by (intro sort_key_cong_on) (simp add: mutable_tier_wf_def)
  then show ?thesis
    by (simp add: ldbSegmentSlice_def mutable_segments_by_name_def sort_key_map)
qed

lemma mutable_segments_by_name_props:
  "sorted (map fst (mutable_segments_by_name t))"
  "set (mutable_segments_by_name t) = set (ldbSegments t)"
  "length (mutable_segments_by_name t) = length (ldbSegments t)"
  "distinct (map fst (ldbSegments t)) \<Longrightarrow> distinct (map fst (mutable_segments_by_name t))"
proof -
  show "sorted (map fst (mutable_segments_by_name t))"
    by (simp add: mutable_segments_by_name_def)
  show "set (mutable_segments_by_name t) = set (ldbSegments t)"
    by (simp add: mutable_segments_by_name_def)
  show "length (mutable_segments_by_name t) = length (ldbSegments t)"
    by (simp add: mutable_segments_by_name_def)
  have "map fst (sort_key fst (ldbSegments t)) = sort_key (\<lambda>x. x) (map fst (ldbSegments t))"
    by (simp add: sort_key_map)
  then show "distinct (map fst (ldbSegments t)) \<Longrightarrow> distinct (map fst (mutable_segments_by_name t))"
    by (simp add: mutable_segments_by_name_def)
qed

lemma candidates_take:
  "0 \<le> m \<Longrightarrow> rev (drop (nat m) (rev xs)) = take (nat (int (length xs) - m)) xs"
  by (simp add: rev_drop nat_diff_distrib')

lemma compaction_candidates_props:
  assumes "0 \<le> MinMutableSegmentCount t"
  shows "compaction_candidates t =
           take (nat (int (length (ldbSegments t)) - MinMutableSegmentCount t))
             (mutable_segments_by_name t)"
  using assms candidates_take [of "MinMutableSegmentCount t" "mutable_segments_by_name t"]
  by (simp add: compaction_candidates_def mutable_segments_by_name_props)

lemma first_failure_simps:
  "first_failure [] = None"
  "first_failure (TooYoung # vs) = first_failure vs"
  "first_failure (Compacted seg # vs) = first_failure vs"
  "first_failure (Failed err # vs) = Some err"
  by (simp_all add: first_failure_def is_failure_def)

lemma compacted_of_simps:
  "compacted_of [] = []"
  "compacted_of ((k, TooYoung) # vs) = compacted_of vs"
  "compacted_of ((k, Compacted seg) # vs) = (k, seg) # compacted_of vs"
  "compacted_of ((k, Failed err) # vs) = []"
  by (simp_all add: compacted_of_def is_failure_def List.map_filter_simps)

lemma compacted_of_names: "fst ` set (compacted_of vs) \<subseteq> fst ` set vs"
proof (induction vs)
  case Nil
  then show ?case by (simp add: compacted_of_simps)
next
  case (Cons v vs)
  obtain k w where v: "v = (k, w)" by (cases v)
  show ?case
    using Cons by (cases w) (auto simp: v compacted_of_simps)
qed

lemma CompactSegment_frame:
  "ldbSegments (snd (CompactSegment ctx p t)) = ldbSegments t"
  "segmentSet (snd (CompactSegment ctx p t)) = segmentSet t"
  "active (snd (CompactSegment ctx p t)) = active t"
  "ldb_next (snd (CompactSegment ctx p t)) = ldb_next t"
  "same_config t (snd (CompactSegment ctx p t))"
  "q \<noteq> p \<Longrightarrow> ldb_store (snd (CompactSegment ctx p t)) q = ldb_store t q"
  by (simp_all add: CompactSegment_def Let_def same_config_def)

lemma verdict_cases:
  "compaction_verdict F ctx t e = TooYoung \<longleftrightarrow>
     (\<exists>age. Stat_Since_ModTime F (ldb_path (ldb_store t (snd e))) = Inr age \<and> age < MinCompactionAge t)"
  "compaction_verdict F ctx t e = Compacted seg \<longleftrightarrow>
     (\<exists>age. Stat_Since_ModTime F (ldb_path (ldb_store t (snd e))) = Inr age \<and>
        \<not> age < MinCompactionAge t \<and>
        fst (CompactSegmentFunc (SegmentCompactor t) ctx (Name t) (ldb_store t (snd e))) = Inr seg)"
  "compaction_verdict F ctx t e = Failed err \<longleftrightarrow>
     Stat_Since_ModTime F (ldb_path (ldb_store t (snd e))) = Inl err \<or>
     (\<exists>age. Stat_Since_ModTime F (ldb_path (ldb_store t (snd e))) = Inr age \<and>
        \<not> age < MinCompactionAge t \<and>
        fst (CompactSegmentFunc (SegmentCompactor t) ctx (Name t) (ldb_store t (snd e))) = Inl err)"
  by (auto simp: compaction_verdict_def split: sum.splits)

lemma compact_loop_by_verdict:
  assumes cfg: "same_config t0 t" and st: "ldb_store t p = ldb_store t0 p"
  shows "compact_loop F ctx (p # ps) t =
     (case compaction_verdict F ctx t0 (k, p) of
        TooYoung \<Rightarrow> compact_loop F ctx ps t
      | Compacted seg \<Rightarrow>
          compact_loop F ctx ps
            ((snd (CompactSegment ctx p t))
               \<lparr>segmentSet := Add seg (segmentSet t),
                ldbSegments := AList.delete (ldb_name (ldb_store t p)) (ldbSegments t)\<rparr>)
      | Failed err \<Rightarrow>
          (Some err,
           if (\<exists>e. Stat_Since_ModTime F (ldb_path (ldb_store t p)) = Inl e) then t
           else snd (CompactSegment ctx p t)))"
proof -
  have c: "MinCompactionAge t = MinCompactionAge t0" "SegmentCompactor t = SegmentCompactor t0"
    "Name t = Name t0"
    using cfg by (simp_all add: same_config_def)
  show ?thesis
    unfolding compact_loop_Cons
    by (auto simp: compaction_verdict_def c st split: sum.splits)
qed

lemma map_of_delete_conv:
  "map_of (AList.delete k xs) n = (if n = k then None else map_of xs n)"
  by (simp add: delete_conv')

lemma map_of_update_conv:
  "map_of (AList.update k v xs) n = (if n = k then Some v else map_of xs n)"
  by (simp add: update_conv')

lemma compact_loop_by_name:
  assumes keep: "compactor_keeps_names (SegmentCompactor t0)"
  shows "distinct (map fst es) \<Longrightarrow>
         (\<forall>e \<in> set es. ldb_name (ldb_store t0 (snd e)) = fst e) \<Longrightarrow>
         same_config t0 t \<Longrightarrow>
         (\<forall>e \<in> set es. ldb_store t (snd e) = ldb_store t0 (snd e)) \<Longrightarrow>
         fst (compact_loop F ctx (map snd es) t) =
           first_failure (map (compaction_verdict F ctx t0) es) \<and>
         (\<forall>n. map_of (ldbSegments (snd (compact_loop F ctx (map snd es) t))) n =
            (if n \<in> fst ` set (compacted_of (map (\<lambda>e. (fst e, compaction_verdict F ctx t0 e)) es))
             then None else map_of (ldbSegments t) n)) \<and>
         (\<forall>n. map_of (segments (segmentSet (snd (compact_loop F ctx (map snd es) t)))) n =
            (case map_of (compacted_of (map (\<lambda>e. (fst e, compaction_verdict F ctx t0 e)) es)) n of
               Some seg \<Rightarrow> Some seg
             | None \<Rightarrow> map_of (segments (segmentSet t)) n))"
proof (induction es arbitrary: t)
  case Nil
  then show ?case by (simp add: first_failure_simps compacted_of_simps)
next
  case (Cons e es)
  obtain k p where e: "e = (k, p)" by (cases e)
  let ?vs = "map (\<lambda>e. (fst e, compaction_verdict F ctx t0 e)) es"
  have d: "distinct (map fst es)" and k_new: "k \<notin> fst ` set es"
    using Cons.prems(1) by (simp_all add: e)
  have nm: "\<forall>e \<in> set es. ldb_name (ldb_store t0 (snd e)) = fst e" and nk: "ldb_name (ldb_store t0 p) = k"
    using Cons.prems(2) by (simp_all add: e)
  have stp: "ldb_store t p = ldb_store t0 p" and st: "\<forall>e \<in> set es. ldb_store t (snd e) = ldb_store t0 (snd e)"
    using Cons.prems(4) by (simp_all add: e)
  have p_new: "snd x \<noteq> p" if "x \<in> set es" for x
  proof
    assume "snd x = p"
    with nm that nk have "fst x = k" by auto
    with that k_new show False by (simp add: image_iff) (metis fst_conv)
  qed
  note step = compact_loop_by_verdict [OF Cons.prems(3) stp, of F ctx ps k for ps]
  show ?case
  proof (cases "compaction_verdict F ctx t0 (k, p)")
    case TooYoung
    from Cons.IH [OF d nm Cons.prems(3) st] TooYoung show ?thesis
      by (simp add: e step first_failure_simps compacted_of_simps del: compact_loop.simps)
  next
    case (Failed err)
    then show ?thesis
      by (simp add: e step first_failure_simps compacted_of_simps CompactSegment_frame
          del: compact_loop.simps)
  next
    case (Compacted seg)
    let ?t1 = "(snd (CompactSegment ctx p t))
               \<lparr>segmentSet := Add seg (segmentSet t),
                ldbSegments := AList.delete (ldb_name (ldb_store t p)) (ldbSegments t)\<rparr>"
    have name: "NameFunc seg = k"
      using Compacted keep nk by (auto simp: verdict_cases compactor_keeps_names_def)
    have c1: "same_config t0 ?t1"
      using Cons.prems(3) by (simp add: same_config_def CompactSegment_def Let_def)
    have st1: "\<forall>x \<in> set es. ldb_store ?t1 (snd x) = ldb_store t0 (snd x)"
      using st p_new by (simp add: CompactSegment_frame)
    note ih = Cons.IH [OF d nm c1 st1]
    have l1: "map_of (ldbSegments ?t1) n = (if n = k then None else map_of (ldbSegments t) n)" for n
      by (simp add: map_of_delete_conv stp nk)
    have u1: "map_of (segments (segmentSet ?t1)) n =
                (if n = k then Some seg else map_of (segments (segmentSet t)) n)" for n
      by (simp add: Add_def map_of_update_conv name)
    have fresh: "map_of (compacted_of ?vs) k = None"
    proof -
      have "fst ` set ?vs = fst ` set es"
        by (simp add: image_image)
      then have "fst ` set (compacted_of ?vs) \<subseteq> fst ` set es"
        using compacted_of_names [of ?vs] by simp
      with k_new have "k \<notin> fst ` set (compacted_of ?vs)" by blast
      then show ?thesis by (simp add: map_of_eq_None_iff)
    qed
    have run: "compact_loop F ctx (map snd (e # es)) t = compact_loop F ctx (map snd es) ?t1"
      using Compacted by (simp add: e step del: compact_loop.simps)
    have "fst (compact_loop F ctx (map snd (e # es)) t) =
            first_failure (map (compaction_verdict F ctx t0) (e # es))"
      unfolding run using ih Compacted by (simp add: e first_failure_simps)
    moreover have "map_of (ldbSegments (snd (compact_loop F ctx (map snd (e # es)) t))) n =
            (if n \<in> fst ` set (compacted_of (map (\<lambda>e. (fst e, compaction_verdict F ctx t0 e)) (e # es)))
             then None else map_of (ldbSegments t) n)" for n
      unfolding run using ih Compacted
      by (simp add: e compacted_of_simps map_of_delete_conv stp nk)
    moreover have "map_of (segments (segmentSet (snd (compact_loop F ctx (map snd (e # es)) t)))) n =
            (case map_of (compacted_of (map (\<lambda>e. (fst e, compaction_verdict F ctx t0 e)) (e # es))) n of
               Some seg \<Rightarrow> Some seg
             | None \<Rightarrow> map_of (segments (segmentSet t)) n)" for n
      unfolding run using ih Compacted fresh
      by (simp add: e compacted_of_simps Add_def map_of_update_conv name split: option.splits)
    ultimately show ?thesis by blast
  qed
qed

lemma compact_loop_rest:
  "active (snd (compact_loop F ctx ps t)) = active t \<and>
   ldb_next (snd (compact_loop F ctx ps t)) = ldb_next t \<and>
   cache (segmentSet (snd (compact_loop F ctx ps t))) = cache (segmentSet t) \<and>
   semaphore_cur (segmentSet (snd (compact_loop F ctx ps t))) = semaphore_cur (segmentSet t)"
  by (rule compact_loop_preserves
      [where P = "\<lambda>t'. active t' = active t \<and> ldb_next t' = ldb_next t \<and>
                        cache (segmentSet t') = cache (segmentSet t) \<and>
                        semaphore_cur (segmentSet t') = semaphore_cur (segmentSet t)"])
    (simp_all add: Add_def)

lemma reachable_wf:
  assumes "(t, b) \<in> set (run F0 (OpOpen # ops) tb0)"
    and "uncompactor_keeps_names (SegmentCompactor t)"
  shows "table_wf t"
proof -
  have "same_config (fst tb0) t"
    using run_config [OF assms(1)] by simp
  then have "uncompactor_keeps_names (SegmentCompactor (fst tb0))"
    using assms(2) by (simp add: same_config_def)
  from run_wf [OF this _ assms(1)] show ?thesis by simp
qed

lemma compact_by_name:
  assumes wf: "mutable_tier_wf t" and keep: "compactor_keeps_names (SegmentCompactor t)"
    and m: "0 \<le> MinMutableSegmentCount t"
  shows "\<exists>t'. compact F ctx t = Returns (compaction_error F ctx t, t') \<and>
           (\<forall>n. map_of (ldbSegments t') n =
              (if n \<in> fst ` set (compacted F ctx t) then None else map_of (ldbSegments t) n)) \<and>
           (\<forall>n. map_of (segments (segmentSet t')) n =
              (case map_of (compacted F ctx t) n of
                 Some seg \<Rightarrow> Some seg
               | None \<Rightarrow> map_of (segments (segmentSet t)) n)) \<and>
           active t' = active t \<and> ldb_next t' = ldb_next t \<and>
           cache (segmentSet t') = cache (segmentSet t) \<and>
           semaphore_cur (segmentSet t') = semaphore_cur (segmentSet t)"
proof (cases "int (length (ldbSegmentSlice t)) < MinMutableSegmentCount t")
  case True
  then have "compaction_candidates t = []"
    by (simp add: compaction_candidates_def mutable_segments_by_name_props ldbSegmentSlice_def)
  then have "compaction_error F ctx t = None" "compacted F ctx t = []"
    by (simp_all add: compaction_error_def compacted_def first_failure_simps compacted_of_simps)
  moreover have "compact F ctx t = Returns (None, t)"
    using True by (simp add: compact_def Let_def)
  ultimately show ?thesis by simp
next
  case False
  let ?es = "compaction_candidates t"
  have len: "length (ldbSegmentSlice t) = length (ldbSegments t)"
    by (simp add: ldbSegmentSlice_def)
  have cand: "?es = take (nat (int (length (ldbSegments t)) - MinMutableSegmentCount t))
                      (mutable_segments_by_name t)"
    using m by (rule compaction_candidates_props)
  have ps: "take (nat (int (length (ldbSegmentSlice t)) - MinMutableSegmentCount t)) (ldbSegmentSlice t)
              = map snd ?es"
    by (simp add: cand ldbSegmentSlice_by_name [OF wf] take_map mutable_segments_by_name_props(3))
  have sub: "set ?es \<subseteq> set (ldbSegments t)"
    using set_take_subset [of _ "mutable_segments_by_name t"]
    by (simp add: cand mutable_segments_by_name_props)
  have d: "distinct (map fst ?es)"
    using wf mutable_segments_by_name_props(4) [of t]
    by (simp add: cand mutable_tier_wf_def take_map [symmetric] distinct_take)
  have nm: "\<forall>e \<in> set ?es. ldb_name (ldb_store t (snd e)) = fst e"
    using wf sub by (auto simp: mutable_tier_wf_def)
  have c: "compact F ctx t = Returns (compact_loop F ctx (map snd ?es) t)"
    using False m by (simp add: compact_def Let_def ps)
  have same: "same_config t t" by (simp add: same_config_def)
  note loop = compact_loop_by_name [OF keep d nm same, of F ctx]
  note rest = compact_loop_rest [of F ctx "map snd ?es" t]
  show ?thesis
    using loop rest
    by (intro exI [of _ "snd (compact_loop F ctx (map snd ?es) t)"])
      (simp add: c compaction_error_def compacted_def prod_eq_iff)
qed

text \<open>
  C5. In a table that has been opened and used, with a compactor that keeps the names of
  the segments it converts, \<^verbatim>\<open>compact\<close> does what the specification says of
  compaction. The mutable segments are taken in ascending order of name and all but the
  newest \<^verbatim>\<open>MinMutableSegmentCount\<close> are candidates. What is returned is the first
  error among the candidates, of the stat or of the compactor. Every candidate before it
  that is not younger than \<^verbatim>\<open>MinCompactionAge\<close> has been compacted: its name is no
  longer in \<open>ldbSegments\<close> and the universe holds the immutable segment under that
  name. Every other name is in \<open>ldbSegments\<close> and in the universe what it was
  before; \<open>active\<close>, the cache and the semaphore are untouched. A negative
  \<^verbatim>\<open>MinMutableSegmentCount\<close> makes the slice expression of the loop panic.
\<close>

theorem compact_follows_the_spec:
  assumes "(t, b) \<in> set (run F0 (OpOpen # ops) tb0)"
    and "uncompactor_keeps_names (SegmentCompactor t)"
    and "compactor_keeps_names (SegmentCompactor t)"
  shows "(MinMutableSegmentCount t < 0 \<longrightarrow> compact F ctx t = Panics) \<and>
         (0 \<le> MinMutableSegmentCount t \<longrightarrow>
            (\<exists>t'. compact F ctx t = Returns (compaction_error F ctx t, t') \<and>
               (\<forall>n. map_of (ldbSegments t') n =
                  (if n \<in> fst ` set (compacted F ctx t) then None else map_of (ldbSegments t) n)) \<and>
               (\<forall>n. map_of (segments (segmentSet t')) n =
                  (case map_of (compacted F ctx t) n of
                     Some seg \<Rightarrow> Some seg
                   | None \<Rightarrow> map_of (segments (segmentSet t)) n)) \<and>
               active t' = active t \<and> ldb_next t' = ldb_next t \<and>
               cache (segmentSet t') = cache (segmentSet t) \<and>
               semaphore_cur (segmentSet t') = semaphore_cur (segmentSet t)))"
proof -
  have "table_wf t"
    using assms(1,2) by (rule reachable_wf)
  then have wf: "mutable_tier_wf t"
    by (simp add: table_wf_def)
  have "compact F ctx t = Panics" if "MinMutableSegmentCount t < 0"
    using that by (simp add: compact_def Let_def)
  with compact_by_name [OF wf assms(3), of F ctx] show ?thesis
    by blast
qed

theorem compact_follows_the_spec_example:
  "(example_table_three, NewBatch) \<in>
     set (run example_fs_new example_three_puts (example_table\<lparr>MinCompactionAge := 50\<rparr>, NewBatch)) \<and>
   map fst (ldbSegments example_table_three) = [''01'', ''02'', ''03''] \<and>
   compaction_candidates example_table_three = [(''01'', 0), (''02'', 1)] \<and>
   map fst (compacted example_fs_later False example_table_three) = [''01''] \<and>
   (\<exists>t'. compact example_fs_later False example_table_three = Returns (None, t') \<and>
      map_of (ldbSegments t') ''01'' = None \<and>
      map_of (ldbSegments t') ''02'' = Some 1 \<and>
      map_of (ldbSegments t') ''03'' = Some 2 \<and>
      map_option NameFunc (map_of (segments (segmentSet t')) ''01'') = Some ''01'' \<and>
      map_of (segments (segmentSet t')) ''02'' = None)"
proof -
  have reach: "(example_table_three, NewBatch) \<in>
     set (run example_fs_new (OpOpen # [OpPut [1, 1] (Some [7]), OpPut [2, 1] (Some [8]),
        OpPut [3, 1] (Some [9])]) (example_table\<lparr>MinCompactionAge := 50\<rparr>, NewBatch))"
    by (simp add: example_run_defs table_defs example_defs)
  have c: "SegmentCompactor example_table_three = example_compactor"
    by (simp add: example_run_defs table_defs example_defs)
  have k1: "uncompactor_keeps_names (SegmentCompactor example_table_three)"
    unfolding c by (simp add: uncompactor_keeps_names_def example_compactor_def split: sum.splits)
  have k2: "compactor_keeps_names (SegmentCompactor example_table_three)"
    unfolding c by (simp add: compactor_keeps_names_def example_compactor_def)
  have l: "ldbSegments example_table_three = [(''01'', 0), (''02'', 1), (''03'', 2)]"
    by (simp add: example_run_defs table_defs example_defs)
  have m: "MinMutableSegmentCount example_table_three = 1"
    by (simp add: example_run_defs table_defs example_defs)
  have cand: "compaction_candidates example_table_three = [(''01'', 0), (''02'', 1)]"
    by (simp add: compaction_candidates_def mutable_segments_by_name_def l m)
  have v1: "\<exists>seg. compaction_verdict example_fs_later False example_table_three (''01'', 0) = Compacted seg \<and> NameFunc seg = ''01''"
    by (simp add: compaction_verdict_def example_run_defs table_defs example_defs)
  have v2: "compaction_verdict example_fs_later False example_table_three (''02'', Suc 0) = TooYoung"
    by (simp add: compaction_verdict_def example_run_defs table_defs example_defs)
  from v1 obtain seg where seg: "compaction_verdict example_fs_later False example_table_three (''01'', 0) = Compacted seg"
    and name: "NameFunc seg = ''01''" by blast
  have cd: "compacted example_fs_later False example_table_three = [(''01'', seg)]"
    by (simp add: compacted_def cand seg v2 compacted_of_simps)
  have ce: "compaction_error example_fs_later False example_table_three = None"
    by (simp add: compaction_error_def cand seg v2 first_failure_simps)
  from compact_follows_the_spec [OF reach k1 k2, of example_fs_later False] m
  obtain t' where t': "compact example_fs_later False example_table_three = Returns (None, t')"
    and ldb: "\<And>n. map_of (ldbSegments t') n =
                 (if n = ''01'' then None else map_of (ldbSegments example_table_three) n)"
    and uni: "\<And>n. map_of (segments (segmentSet t')) n =
                 (if n = ''01'' then Some seg else map_of (segments (segmentSet example_table_three)) n)"
    by (auto simp: cd ce)
  have u: "segments (segmentSet example_table_three) = []"
    by (simp add: example_run_defs table_defs example_defs)
  show ?thesis
    using reach t' by (simp add: example_three_puts_def cand cd l ldb uni u name)
qed

subsection \<open>Writing the same value twice\<close>

lemma Acquire_none_same:
  "Acquire name ss = Returns ((None, e), ss1) \<Longrightarrow> ss1 = ss"
  by (auto simp: Acquire_def semaphore_Acquire_def semaphore_Release_def andThen_def lru_Get_def
      context_Background_def split: if_splits option.splits)

lemma map_of_lru_Add_cases:
  "map_of (lru_Add cap k v c) k = Some v \<or> map_of (lru_Add cap k v c) k = None"
  by (cases c rule: rev_cases) (auto simp: lru_Add_def butlast_append split: option.splits)

lemma Acquire_hit:
  "semaphore_cur ss < semaphore_size ss \<Longrightarrow> map_of (cache ss) name = Some s \<Longrightarrow>
     Acquire name ss =
       Returns ((Some s, None),
         ss\<lparr>semaphore_cur := Suc (semaphore_cur ss),
            cache := (name, s) # AList.delete name (cache ss)\<rparr>)"
  by (simp add: Acquire_def semaphore_Acquire_def andThen_def lru_Get_def context_Background_def)

lemma Acquire_opened:
  "semaphore_cur ss < semaphore_size ss \<Longrightarrow> map_of (cache ss) name = None \<Longrightarrow>
   map_of (segments ss) name = Some s \<Longrightarrow> OpenFunc s = None \<or> OpenFunc s = Some None \<Longrightarrow>
     Acquire name ss =
       Returns ((Some s, None),
         ss\<lparr>semaphore_cur := Suc (semaphore_cur ss),
            cache := lru_Add (cache_size ss) name s (cache ss)\<rparr>)"
  by (auto simp: Acquire_def semaphore_Acquire_def andThen_def lru_Get_def context_Background_def)

lemma Release_Suc:
  "semaphore_cur ss = Suc n \<Longrightarrow> Release ss = Returns (ss\<lparr>semaphore_cur := n\<rparr>)"
  by (simp add: Release_def semaphore_Release_def)

lemma Acquire_Release_again:
  assumes "Acquire name ss = Returns ((Some s, None), ss1)" and "Release ss1 = Returns ss2"
  shows "\<exists>ss3 ss4. Acquire name ss2 = Returns ((Some s, None), ss3) \<and> Release ss3 = Returns ss4"
proof -
  have free: "semaphore_cur ss < semaphore_size ss"
    using assms(1) by (auto simp: Acquire_def semaphore_Acquire_def andThen_def context_Background_def
        split: if_splits)
  consider (hit) "map_of (cache ss) name = Some s"
    | (miss) "map_of (cache ss) name = None" "map_of (segments ss) name = Some s"
        "OpenFunc s = None \<or> OpenFunc s = Some None"
    using assms(1) free
    by (auto simp: Acquire_def semaphore_Acquire_def semaphore_Release_def andThen_def lru_Get_def
        context_Background_def split: if_splits option.splits)
  then obtain c where ss1: "ss1 = ss\<lparr>semaphore_cur := Suc (semaphore_cur ss), cache := c\<rparr>"
    and c: "map_of c name = Some s \<or> (map_of c name = None \<and> map_of (segments ss) name = Some s \<and>
              (OpenFunc s = None \<or> OpenFunc s = Some None))"
  proof cases
    case hit
    from Acquire_hit [OF free hit] assms(1) that [of "(name, s) # AList.delete name (cache ss)"]
    show ?thesis by simp
  next
    case miss
    from Acquire_opened [OF free miss] assms(1) miss
      map_of_lru_Add_cases [of "cache_size ss" name s "cache ss"]
      that [of "lru_Add (cache_size ss) name s (cache ss)"]
    show ?thesis by auto
  qed
  from assms(2) ss1 have ss2: "ss2 = ss\<lparr>cache := c\<rparr>"
    by (simp add: Release_def semaphore_Release_def)
  have free2: "semaphore_cur ss2 < semaphore_size ss2"
    using free ss2 by simp
  from c show ?thesis
  proof
    assume h: "map_of c name = Some s"
    then have "map_of (cache ss2) name = Some s" by (simp add: ss2)
    from Acquire_hit [OF free2 this] show ?thesis
      by (metis Release_Suc SegmentSet.select_convs(3) SegmentSet.surjective SegmentSet.update_convs(3)
          SegmentSet.update_convs(4))
  next
    assume m: "map_of c name = None \<and> map_of (segments ss) name = Some s \<and>
              (OpenFunc s = None \<or> OpenFunc s = Some None)"
    then have "map_of (cache ss2) name = None" "map_of (segments ss2) name = Some s"
      by (simp_all add: ss2)
    from Acquire_opened [OF free2 this] m show ?thesis
      by (metis Release_Suc SegmentSet.select_convs(3) SegmentSet.surjective SegmentSet.update_convs(3)
          SegmentSet.update_convs(4))
  qed
qed

lemma Get_again:
  assumes "Get key t = Returns (r, t1)"
  shows "\<exists>t2. Get key t1 = Returns (r, t2)"
proof -
  let ?name = "Partitioner t key"
  have p1: "Partitioner t1 key = ?name" and l1: "ldbSegments t1 = ldbSegments t"
    and s1: "ldb_store t1 = ldb_store t"
    using Get_frame [OF assms] by (simp_all add: only_segmentSet_changed_def same_config_def)
  show ?thesis
  proof (cases "map_of (ldbSegments t) ?name")
    case (Some p)
    with assms have "t1 = t"
      by (auto simp: Get_def AcquireSegment_def andThen_def ReleaseSegment_def)
    with assms show ?thesis by blast
  next
    case None
    from assms obtain a ss1 where a: "Acquire ?name (segmentSet t) = Returns (a, ss1)"
      by (auto simp: Get_def AcquireSegment_def andThen_def None split: outcome.splits)
    show ?thesis
    proof (cases "fst a")
      case n: None
      with a have "ss1 = segmentSet t"
        using Acquire_none_same [of ?name "segmentSet t" "snd a" ss1] by (cases a) simp
      with assms a n None have "t1 = t"
        by (cases a) (auto simp: Get_def AcquireSegment_def andThen_def split: option.splits)
      with assms show ?thesis by blast
    next
      case (Some s)
      have e: "snd a = None"
        using a Some
        by (cases a) (auto simp: Acquire_def semaphore_Acquire_def semaphore_Release_def andThen_def
            lru_Get_def context_Background_def split: if_splits option.splits)
      with Some have a': "a = (Some s, None)" by (cases a) simp
      from assms a None a' obtain ss2 where
        rel: "Release ss1 = Returns ss2" and t1: "t1 = t\<lparr>segmentSet := ss2\<rparr>"
        and r: "r = GetFunc s key"
        by (auto simp: Get_def AcquireSegment_def andThen_def ReleaseSegment_def segment_Get_def
            split: outcome.splits)
      from Acquire_Release_again [OF a [unfolded a'] rel] obtain ss3 ss4 where
        "Acquire ?name ss2 = Returns ((Some s, None), ss3)" "Release ss3 = Returns ss4"
        by blast
      with None t1 r show ?thesis
        by (simp add: Get_def AcquireSegment_def andThen_def ReleaseSegment_def segment_Get_def)
    qed
  qed
qed


lemma closed_stays_closed:
  assumes "\<not> ldb_open (ldb_store t q)"
  shows "\<not> ldb_open (ldb_store (snd (compact_loop F ctx ps t)) q)"
  by (rule compact_loop_preserves [where P = "\<lambda>t'. \<not> ldb_open (ldb_store t' q)"])
    (use assms in \<open>simp_all add: LDBSegment_Close_def\<close>)

text \<open>
  An entry of \<open>ldbSegments\<close> whose segment is the only candidate of its name is
  still there after the loop of \<^verbatim>\<open>compact\<close>, unless its segment has been compacted,
  and then the segment is closed.
\<close>

lemma compact_loop_retires:
  assumes closes: "compactor_closes_segment C"
  shows "SegmentCompactor t = C \<Longrightarrow>
         (\<forall>p \<in> set ps. p = q \<or> ldb_name (ldb_store t p) \<noteq> n) \<Longrightarrow>
         map_of (ldbSegments (snd (compact_loop F ctx ps t))) n = map_of (ldbSegments t) n \<or>
         \<not> ldb_open (ldb_store (snd (compact_loop F ctx ps t)) q)"
proof (induction ps arbitrary: t)
  case Nil
  then show ?case by simp
next
  case (Cons p ps)
  let ?r = "CompactSegmentFunc (SegmentCompactor t) ctx (Name t) (ldb_store t p)"
  have rest: "\<forall>p \<in> set ps. p = q \<or> ldb_name (ldb_store t p) \<noteq> n"
    using Cons.prems(2) by simp
  have moved: "map_of (ldbSegments (snd (compact_loop F ctx ps
                  ((snd (CompactSegment ctx p t))
                     \<lparr>segmentSet := Add new (segmentSet t),
                      ldbSegments := AList.delete (ldb_name (ldb_store t p)) (ldbSegments t)\<rparr>)))) n
                = map_of (ldbSegments t) n \<or>
               \<not> ldb_open (ldb_store (snd (compact_loop F ctx ps
                  ((snd (CompactSegment ctx p t))
                     \<lparr>segmentSet := Add new (segmentSet t),
                      ldbSegments := AList.delete (ldb_name (ldb_store t p)) (ldbSegments t)\<rparr>))) q)"
    if new: "fst ?r = Inr new" for new
  proof -
    let ?t1 = "(snd (CompactSegment ctx p t))
                 \<lparr>segmentSet := Add new (segmentSet t),
                  ldbSegments := AList.delete (ldb_name (ldb_store t p)) (ldbSegments t)\<rparr>"
    have closed: "snd ?r"
      using closes new Cons.prems(1) by (auto simp: compactor_closes_segment_def)
    show ?thesis
    proof (cases "p = q")
      case True
      have "\<not> ldb_open (ldb_store ?t1 q)"
        using closed True by (simp add: CompactSegment_def Let_def LDBSegment_Close_def)
      then show ?thesis
        by (intro disjI2 closed_stays_closed)
    next
      case False
      then have other: "ldb_name (ldb_store t p) \<noteq> n"
        using Cons.prems(2) by simp
      have c1: "SegmentCompactor ?t1 = C"
        using Cons.prems(1) by (simp add: CompactSegment_def Let_def)
      have n1: "\<forall>p' \<in> set ps. p' = q \<or> ldb_name (ldb_store ?t1 p') \<noteq> n"
        using rest by (simp add: CompactSegment_def Let_def)
      have "map_of (ldbSegments ?t1) n = map_of (ldbSegments t) n"
        using other by (simp add: map_of_delete_conv)
      with Cons.IH [OF c1 n1] show ?thesis by simp
    qed
  qed
  have failed: "map_of (ldbSegments (snd (CompactSegment ctx p t))) n = map_of (ldbSegments t) n"
    by (simp add: CompactSegment_frame)
  show ?case
    unfolding compact_loop_Cons
    using Cons.IH [OF Cons.prems(1) rest] moved failed
    by (auto split: sum.splits)
qed

lemma mutable_tier_wf_pointer:
  assumes wf: "mutable_tier_wf t" and reg: "map_of (ldbSegments t) n = Some q"
    and p: "p \<in> snd ` set (ldbSegments t)"
  shows "p = q \<or> ldb_name (ldb_store t p) \<noteq> n"
proof -
  from p obtain k where e: "(k, p) \<in> set (ldbSegments t)" by auto
  with wf have k: "ldb_name (ldb_store t p) = k" and d: "distinct (map fst (ldbSegments t))"
    by (auto simp: mutable_tier_wf_def)
  show ?thesis
  proof (cases "k = n")
    case True
    with e d have "map_of (ldbSegments t) n = Some p" by simp
    with reg show ?thesis by simp
  next
    case False
    with k show ?thesis by simp
  qed
qed

lemma compact_retires:
  assumes wf: "mutable_tier_wf t" and closes: "compactor_closes_segment (SegmentCompactor t)"
    and reg: "map_of (ldbSegments t) n = Some q"
    and c: "compact F ctx t = Returns (r, t')"
  shows "map_of (ldbSegments t') n = Some q \<or> \<not> ldb_open (ldb_store t' q)"
proof -
  from c consider "t' = t"
    | "t' = snd (compact_loop F ctx
         (take (nat (int (length (ldbSegmentSlice t)) - MinMutableSegmentCount t))
            (ldbSegmentSlice t)) t)"
    by (auto simp: compact_def Let_def split: if_splits)
  then show ?thesis
  proof cases
    case 1
    with reg show ?thesis by simp
  next
    case 2
    let ?ps = "take (nat (int (length (ldbSegmentSlice t)) - MinMutableSegmentCount t))
                 (ldbSegmentSlice t)"
    have "set ?ps \<subseteq> snd ` set (ldbSegments t)"
      using set_take_subset [of _ "ldbSegmentSlice t"] by (simp add: ldbSegmentSlice_def)
    then have "\<forall>p \<in> set ?ps. p = q \<or> ldb_name (ldb_store t p) \<noteq> n"
      using mutable_tier_wf_pointer [OF wf reg] by blast
    from compact_loop_retires [OF closes refl this, of F ctx] reg 2 show ?thesis
      by simp
  qed
qed

lemma CreateSegmentIfNotExists_registered:
  assumes wf: "mutable_tier_wf t" and closes: "compactor_closes_segment (SegmentCompactor t)"
    and c: "CreateSegmentIfNotExists F ctx name t = Returns (Inr p, t2)"
  shows "map_of (ldbSegments t2) name = Some p \<or> \<not> ldb_open (ldb_store t2 p)"
proof (cases "map_of (ldbSegments t) name")
  case (Some q)
  with c show ?thesis by (simp add: CreateSegmentIfNotExists_def)
next
  case None
  show ?thesis
  proof (cases "Contains name (segmentSet t)")
    case True
    with None c show ?thesis
      by (auto simp: CreateSegmentIfNotExists_def dest: uncompact_result)
  next
    case False
    from c None False have above: "\<not> name < active t"
      by (auto simp: CreateSegmentIfNotExists_def split: if_splits)
    from c None False above obtain s where
      o: "LDBSegment_Open F (NewLDBSegment name (SegmentPath t name)) = Inr s"
      by (cases "LDBSegment_Open F (NewLDBSegment name (SegmentPath t name))")
        (auto simp: CreateSegmentIfNotExists_def)
    let ?t2 = "t\<lparr>ldb_store := (ldb_store t)(ldb_next t := s),
                  ldb_next := Suc (ldb_next t),
                  ldbSegments := AList.update name (ldb_next t) (ldbSegments t), active := name\<rparr>"
    from c None False above o have
      "andThen (compact F ctx ?t2)
         (\<lambda>(err, t3). case err of Some e \<Rightarrow> Returns (Inl e, t3)
                                | None \<Rightarrow> Returns (Inr (ldb_next t), t3)) = Returns (Inr p, t2)"
      by (simp add: CreateSegmentIfNotExists_def new_LDBSegment_object_def Let_def)
    then obtain r where cp: "compact F ctx ?t2 = Returns (r, t2)" and p: "p = ldb_next t"
      by (auto simp: andThen_def split: outcome.splits option.splits)
    have "mutable_tier_wf
            (t\<lparr>ldb_store := (ldb_store t)(ldb_next t := s), ldb_next := Suc (ldb_next t),
               ldbSegments := AList.update name (ldb_next t) (ldbSegments t)\<rparr>)"
      using wf LDBSegment_Open_name [OF o] by (rule mutable_tier_wf_install)
    then have wf2: "mutable_tier_wf ?t2"
      by (simp add: mutable_tier_wf_def)
    have reg: "map_of (ldbSegments ?t2) name = Some (ldb_next t)"
      by (simp add: map_of_update_conv)
    have cl2: "compactor_closes_segment (SegmentCompactor ?t2)"
      using closes by simp
    from compact_retires [OF wf2 cl2 reg cp] p show ?thesis by simp
  qed
qed

lemma LDBSegment_Put_then_Get:
  "fst (LDBSegment_Put s key val) = None \<Longrightarrow>
   LDBSegment_Get (snd (LDBSegment_Put s key val)) key = (Some (slice_bytes val), None)"
  by (simp add: LDBSegment_Put_def LDBSegment_Get_def split: if_splits)

lemma LDBSegment_Put_open: "fst (LDBSegment_Put s key val) = None \<Longrightarrow> ldb_open s"
  by (simp add: LDBSegment_Put_def split: if_splits)

lemma Put_twice:
  assumes wf: "mutable_tier_wf t" and closes: "compactor_closes_segment (SegmentCompactor t)"
    and p1: "Put F key val t = Returns (None, t')"
  shows "\<exists>t''. Put F key val t' = Returns (None, t'') \<and>
           ldb_store t'' = ldb_store t' \<and> ldbSegments t'' = ldbSegments t' \<and>
           ldb_next t'' = ldb_next t' \<and> segments (segmentSet t'') = segments (segmentSet t') \<and>
           active t'' = active t'"
proof -
  from p1 obtain g t1 where g: "Get key t = Returns (g, t1)"
    by (auto simp: Put_def andThen_def split: outcome.splits)
  note f1 = Get_frame [OF g]
  have ok: "snd g = None \<or> snd g = Some ErrNotFound"
    using p1 g by (auto simp: Put_def andThen_def split: if_splits outcome.splits sum.splits)
  have second: ?thesis
    if g2: "Get key t' = Returns (g', t'')" and eq: "bytes_Equal (fst g') val"
      and ok2: "snd g' = None \<or> snd g' = Some ErrNotFound" for g' t''
  proof -
    have "Put F key val t' = Returns (None, t'')"
      using g2 eq ok2 by (auto simp: Put_def andThen_def)
    with g2 Get_frame [OF g2] show ?thesis
      by (cases g') (auto simp: only_segmentSet_changed_def)
  qed
  show ?thesis
  proof (cases "bytes_Equal (fst g) val")
    case True
    with p1 g ok have "t' = t1" by (auto simp: Put_def andThen_def)
    with Get_again [OF g] obtain t2 where "Get key t' = Returns (g, t2)" by blast
    from second [OF this True ok] show ?thesis .
  next
    case False
    with p1 g ok obtain p t2 where
      c: "CreateSegmentIfNotExists F context_TODO (Partitioner t1 key) t1 = Returns (Inr p, t2)"
      and written: "fst (LDBSegment_Put (ldb_store t2 p) key val) = None"
      and t': "t' = t2\<lparr>ldb_store := (ldb_store t2)(p := snd (LDBSegment_Put (ldb_store t2 p) key val))\<rparr>"
      by (auto simp: Put_def andThen_def split: outcome.splits sum.splits)
    have wf1: "mutable_tier_wf t1"
      using wf mutable_tier_wf_frame [of t t1] f1 by simp
    have cl1: "compactor_closes_segment (SegmentCompactor t1)"
      using closes f1 by (simp add: only_segmentSet_changed_def same_config_def)
    from CreateSegmentIfNotExists_registered [OF wf1 cl1 c] LDBSegment_Put_open [OF written]
    have reg: "map_of (ldbSegments t2) (Partitioner t1 key) = Some p" by simp
    have "Partitioner t' = Partitioner t1"
      using CreateSegmentIfNotExists_config [OF c] by (simp add: t' same_config_def)
    with reg LDBSegment_Put_then_Get [OF written]
    have "Get key t' = Returns ((Some (slice_bytes val), None), t')"
      by (simp add: Get_def AcquireSegment_def andThen_def ReleaseSegment_def segment_Get_def t')
    from second [OF this] show ?thesis
      by (simp add: bytes_Equal_def slice_bytes_def)
  qed
qed

lemma example_Put_01:
  "Put example_fs [1, 1] (Some [7]) example_table = Returns (None, example_table_01_written)"
  by (simp add: table_defs example_defs example_table_01_written_def)

text \<open>
  C8. In a table that has been opened and used, with a compactor that closes the mutable
  segment it has compacted, after \<^verbatim>\<open>Put(k, v)\<close> has returned nil a second
  \<^verbatim>\<open>Put(k, v)\<close> returns nil and performs no write: the store of every mutable
  segment, its count of writes included, is what it was, no segment has been created or
  uncompacted, and the universe and \<open>active\<close> are unchanged.
\<close>

theorem Put_twice_writes_once:
  assumes "(t, b) \<in> set (run F0 (OpOpen # ops) tb0)"
    and "uncompactor_keeps_names (SegmentCompactor t)"
    and "compactor_closes_segment (SegmentCompactor t)"
    and "Put F key val t = Returns (None, t')"
  shows "\<exists>t''. Put F key val t' = Returns (None, t'') \<and>
           ldb_store t'' = ldb_store t' \<and> ldbSegments t'' = ldbSegments t' \<and>
           ldb_next t'' = ldb_next t' \<and> segments (segmentSet t'') = segments (segmentSet t') \<and>
           active t'' = active t'"
proof -
  have "table_wf t"
    using assms(1,2) by (rule reachable_wf)
  then have "mutable_tier_wf t"
    by (simp add: table_wf_def)
  from Put_twice [OF this assms(3,4)] show ?thesis .
qed

theorem Put_twice_writes_once_example:
  "(example_table, NewBatch) \<in> set (run example_fs [OpOpen] (example_table, NewBatch)) \<and>
   Put example_fs [1, 1] (Some [7]) example_table = Returns (None, example_table_01_written) \<and>
   Put example_fs [1, 1] (Some [7]) example_table_01_written = Returns (None, example_table_01_written) \<and>
   ldb_writes (ldb_store example_table_01_written 0) = 1"
proof -
  have reach: "(example_table, NewBatch) \<in> set (run example_fs (OpOpen # []) (example_table, NewBatch))"
    by (simp add: Open_def table_defs example_defs)
  have k: "uncompactor_keeps_names (SegmentCompactor example_table)"
    by (simp add: uncompactor_keeps_names_def example_defs split: sum.splits)
  have c: "compactor_closes_segment (SegmentCompactor example_table)"
    by (simp add: compactor_closes_segment_def example_defs)
  have g: "Get [1, 1] example_table_01_written = Returns ((Some [7], None), example_table_01_written)"
    by (simp add: table_defs example_defs example_table_01_written_def)
  from Put_twice_writes_once [OF reach k c example_Put_01] obtain t'' where
    "Put example_fs [1, 1] (Some [7]) example_table_01_written = Returns (None, t'')"
    by blast
  moreover have "Put example_fs [1, 1] (Some [7]) example_table_01_written =
                   Returns (None, example_table_01_written)"
    using g by (simp add: Put_def andThen_def bytes_Equal_def slice_bytes_def)
  ultimately show ?thesis
    using reach example_Put_01
    by (simp add: example_table_01_written_def example_table_01_def LDBSegment_Put_def
        NewLDBSegment_def)
qed

text \<open>
  With \<^verbatim>\<open>MinMutableSegmentCount\<close> at 0 the segment a \<^verbatim>\<open>Put\<close> has just created is
  compacted before the write, and the write is refused by the closed segment: the
  \<^verbatim>\<open>Put\<close> does not return nil.
\<close>

lemma Put_into_a_segment_compacted_at_once:
  "\<exists>t'. Put example_fs [1, 1] (Some [7]) (example_table\<lparr>MinMutableSegmentCount := 0\<rparr>) =
          Returns (Some ErrClosed, t')"
  by (simp add: table_defs example_defs)

subsection \<open>Uncompacting a segment\<close>

lemma uncompact_blocks_without_permit:
  "semaphore_size (segmentSet t) \<le> semaphore_cur (segmentSet t) \<Longrightarrow> uncompact ctx name t = Blocks"
  by (simp add: uncompact_def Acquire_def semaphore_Acquire_def andThen_def context_Background_def)

lemma Acquire_for_uncompact:
  assumes free: "semaphore_cur ss < semaphore_size ss"
    and got: "map_of (cache ss) name = Some g \<or>
              (map_of (cache ss) name = None \<and> map_of (segments ss) name = Some g \<and>
               (OpenFunc g = None \<or> OpenFunc g = Some None))"
  shows "\<exists>c. Acquire name ss =
               Returns ((Some g, None), ss\<lparr>semaphore_cur := Suc (semaphore_cur ss), cache := c\<rparr>)"
  using got Acquire_hit [OF free] Acquire_opened [OF free] by blast

lemma Remove_with_permit:
  assumes "semaphore_cur ss < semaphore_size ss"
  shows "Remove ctx name ss =
           Returns (ss\<lparr>segments := AList.delete name (segments ss),
                       cache := AList.delete name (cache ss)\<rparr>)"
  using assms
  by (simp add: Remove_def semaphore_Acquire_def semaphore_Release_def andThen_def Let_def
      lru_Remove_def)

lemma Remove_without_permit:
  assumes "semaphore_size ss \<le> semaphore_cur ss"
  shows "Remove ctx name ss =
           (if ctx then Returns (ss\<lparr>segments := AList.delete name (segments ss)\<rparr>) else Blocks)"
  using assms
  by (simp add: Remove_def semaphore_Acquire_def andThen_def Let_def)

lemma uncompact_returns:
  assumes free2: "Suc (semaphore_cur (segmentSet t)) < semaphore_size (segmentSet t)"
    and got: "map_of (cache (segmentSet t)) name = Some g \<or>
              (map_of (cache (segmentSet t)) name = None \<and>
               map_of (segments (segmentSet t)) name = Some g \<and>
               (OpenFunc g = None \<or> OpenFunc g = Some None))"
    and un: "UncompactSegmentFunc (SegmentCompactor t) ctx (Name t) (Some g) = Inr s"
  shows "\<exists>c. uncompact ctx name t =
           Returns (Inr (ldb_next t),
             t\<lparr>ldb_store := (ldb_store t)(ldb_next t := s), ldb_next := Suc (ldb_next t),
               ldbSegments := AList.update name (ldb_next t) (ldbSegments t),
               segmentSet := (segmentSet t)
                 \<lparr>segments := AList.delete name (segments (segmentSet t)),
                  cache := AList.delete name c\<rparr>\<rparr>)"
proof -
  let ?ss = "segmentSet t"
  have free: "semaphore_cur ?ss < semaphore_size ?ss"
    using free2 by simp
  from Acquire_for_uncompact [OF free got] obtain c where
    a: "Acquire name ?ss = Returns ((Some g, None), ?ss\<lparr>semaphore_cur := Suc (semaphore_cur ?ss), cache := c\<rparr>)"
    by blast
  let ?ss1 = "?ss\<lparr>semaphore_cur := Suc (semaphore_cur ?ss), cache := c\<rparr>"
  have r: "Remove ctx name ?ss1 =
             Returns (?ss1\<lparr>segments := AList.delete name (segments ?ss1),
                           cache := AList.delete name (cache ?ss1)\<rparr>)"
    by (rule Remove_with_permit) (use free2 in simp)
  have "uncompact ctx name t =
           Returns (Inr (ldb_next t),
             t\<lparr>ldb_store := (ldb_store t)(ldb_next t := s), ldb_next := Suc (ldb_next t),
               ldbSegments := AList.update name (ldb_next t) (ldbSegments t),
               segmentSet := ?ss
                 \<lparr>segments := AList.delete name (segments ?ss), cache := AList.delete name c\<rparr>\<rparr>)"
    by (simp add: uncompact_def a un r andThen_def new_LDBSegment_object_def Let_def Release_def
        semaphore_Release_def)
  then show ?thesis by blast
qed

lemma uncompact_on_last_permit:
  assumes last: "Suc (semaphore_cur (segmentSet t)) = semaphore_size (segmentSet t)"
    and got: "map_of (cache (segmentSet t)) name = Some g \<or>
              (map_of (cache (segmentSet t)) name = None \<and>
               map_of (segments (segmentSet t)) name = Some g \<and>
               (OpenFunc g = None \<or> OpenFunc g = Some None))"
    and un: "UncompactSegmentFunc (SegmentCompactor t) ctx (Name t) (Some g) = Inr s"
  shows "\<not> ctx \<longrightarrow> uncompact ctx name t = Blocks"
proof -
  let ?ss = "segmentSet t"
  have free: "semaphore_cur ?ss < semaphore_size ?ss"
    using last by simp
  from Acquire_for_uncompact [OF free got] obtain c where
    a: "Acquire name ?ss = Returns ((Some g, None), ?ss\<lparr>semaphore_cur := Suc (semaphore_cur ?ss), cache := c\<rparr>)"
    by blast
  let ?ss1 = "?ss\<lparr>semaphore_cur := Suc (semaphore_cur ?ss), cache := c\<rparr>"
  have r: "Remove ctx name ?ss1 =
             (if ctx then Returns (?ss1\<lparr>segments := AList.delete name (segments ?ss1)\<rparr>) else Blocks)"
    by (rule Remove_without_permit) (use last in simp)
  show ?thesis
  proof
    assume "\<not> ctx"
    then have c: "ctx = False" by simp
    show "uncompact ctx name t = Blocks"
      using a un r unfolding c
      by (simp add: uncompact_def andThen_def new_LDBSegment_object_def Let_def)
  qed
qed

subsection \<open>Creating a segment\<close>

text \<open>
  C3. \<^verbatim>\<open>CreateSegmentIfNotExists\<close>, branch by branch. A name that is live in
  \<open>ldbSegments\<close> gives that segment and changes nothing. Else a name of the universe is
  handed to \<^verbatim>\<open>uncompact\<close>: with no permit free it waits; when the immutable segment is
  acquired and the compactor converts it, then with a second permit free it returns the
  converted segment, entered under the name in \<open>ldbSegments\<close> and taken out of the
  universe, and with the permit it holds being the last one it waits for ever, under a
  context that is never cancelled; whenever it returns a segment, the name is mutable, out
  of the universe, and \<open>active\<close> is what it was. Else a name below \<open>active\<close> fails with
  \<^verbatim>\<open>ErrImmutableSegment\<close> and changes nothing. Else the new segment is opened (a
  failure is returned, with nothing created), entered in \<open>ldbSegments\<close>, \<open>active\<close> is
  set to the name and \<^verbatim>\<open>compact\<close> is run before the segment is returned.
\<close>

theorem CreateSegmentIfNotExists_cases:
  "(\<forall>p. map_of (ldbSegments t) name = Some p \<longrightarrow>
      CreateSegmentIfNotExists F ctx name t = Returns (Inr p, t)) \<and>
   (map_of (ldbSegments t) name = None \<and> Contains name (segmentSet t) \<longrightarrow>
      CreateSegmentIfNotExists F ctx name t = uncompact ctx name t \<and>
      (semaphore_size (segmentSet t) \<le> semaphore_cur (segmentSet t) \<longrightarrow>
         uncompact ctx name t = Blocks) \<and>
      (\<forall>g s.
         (map_of (cache (segmentSet t)) name = Some g \<or>
          map_of (cache (segmentSet t)) name = None \<and>
          map_of (segments (segmentSet t)) name = Some g \<and>
          (OpenFunc g = None \<or> OpenFunc g = Some None)) \<and>
         UncompactSegmentFunc (SegmentCompactor t) ctx (Name t) (Some g) = Inr s \<longrightarrow>
         (Suc (semaphore_cur (segmentSet t)) < semaphore_size (segmentSet t) \<longrightarrow>
            (\<exists>c. uncompact ctx name t =
               Returns (Inr (ldb_next t),
                 t\<lparr>ldb_store := (ldb_store t)(ldb_next t := s), ldb_next := Suc (ldb_next t),
                   ldbSegments := AList.update name (ldb_next t) (ldbSegments t),
                   segmentSet := (segmentSet t)
                     \<lparr>segments := AList.delete name (segments (segmentSet t)),
                      cache := AList.delete name c\<rparr>\<rparr>))) \<and>
         (Suc (semaphore_cur (segmentSet t)) = semaphore_size (segmentSet t) \<and> \<not> ctx \<longrightarrow>
            uncompact ctx name t = Blocks)) \<and>
      (\<forall>p t'. uncompact ctx name t = Returns (Inr p, t') \<longrightarrow>
         map_of (ldbSegments t') name = Some p \<and> \<not> Contains name (segmentSet t') \<and>
         active t' = active t)) \<and>
   (map_of (ldbSegments t) name = None \<and> \<not> Contains name (segmentSet t) \<and> name < active t \<longrightarrow>
      CreateSegmentIfNotExists F ctx name t = Returns (Inl ErrImmutableSegment, t)) \<and>
   (map_of (ldbSegments t) name = None \<and> \<not> Contains name (segmentSet t) \<and> \<not> name < active t \<longrightarrow>
      (\<forall>err. LDBSegment_Open F (NewLDBSegment name (SegmentPath t name)) = Inl err \<longrightarrow>
         CreateSegmentIfNotExists F ctx name t = Returns (Inl err, t)) \<and>
      (\<forall>s. LDBSegment_Open F (NewLDBSegment name (SegmentPath t name)) = Inr s \<longrightarrow>
         CreateSegmentIfNotExists F ctx name t =
           andThen
             (compact F ctx
               (t\<lparr>ldb_store := (ldb_store t)(ldb_next t := s), ldb_next := Suc (ldb_next t),
                  ldbSegments := AList.update name (ldb_next t) (ldbSegments t), active := name\<rparr>))
             (\<lambda>(err, t3). case err of
                 Some e \<Rightarrow> Returns (Inl e, t3)
               | None \<Rightarrow> Returns (Inr (ldb_next t), t3)) \<and>
         (\<forall>r t'. CreateSegmentIfNotExists F ctx name t = Returns (r, t') \<longrightarrow> active t' = name)))"
proof -
  have existing: "\<forall>p. map_of (ldbSegments t) name = Some p \<longrightarrow>
      CreateSegmentIfNotExists F ctx name t = Returns (Inr p, t)"
    by (simp add: CreateSegmentIfNotExists_def)
  have compacted: "CreateSegmentIfNotExists F ctx name t = uncompact ctx name t"
    if "map_of (ldbSegments t) name = None \<and> Contains name (segmentSet t)"
    using that by (simp add: CreateSegmentIfNotExists_def)
  have waits: "semaphore_size (segmentSet t) \<le> semaphore_cur (segmentSet t) \<longrightarrow>
         uncompact ctx name t = Blocks"
    using uncompact_blocks_without_permit [of t ctx name] by blast
  have finished: "\<forall>p t'. uncompact ctx name t = Returns (Inr p, t') \<longrightarrow>
         map_of (ldbSegments t') name = Some p \<and> \<not> Contains name (segmentSet t') \<and>
         active t' = active t"
    by (auto dest: uncompact_result)
  have old: "map_of (ldbSegments t) name = None \<and> \<not> Contains name (segmentSet t) \<and> name < active t \<longrightarrow>
      CreateSegmentIfNotExists F ctx name t = Returns (Inl ErrImmutableSegment, t)"
    by (simp add: CreateSegmentIfNotExists_def)
  have fresh: "map_of (ldbSegments t) name = None \<and> \<not> Contains name (segmentSet t) \<and> \<not> name < active t \<longrightarrow>
      (\<forall>err. LDBSegment_Open F (NewLDBSegment name (SegmentPath t name)) = Inl err \<longrightarrow>
         CreateSegmentIfNotExists F ctx name t = Returns (Inl err, t)) \<and>
      (\<forall>s. LDBSegment_Open F (NewLDBSegment name (SegmentPath t name)) = Inr s \<longrightarrow>
         CreateSegmentIfNotExists F ctx name t =
           andThen
             (compact F ctx
               (t\<lparr>ldb_store := (ldb_store t)(ldb_next t := s), ldb_next := Suc (ldb_next t),
                  ldbSegments := AList.update name (ldb_next t) (ldbSegments t), active := name\<rparr>))
             (\<lambda>(err, t3). case err of
                 Some e \<Rightarrow> Returns (Inl e, t3)
               | None \<Rightarrow> Returns (Inr (ldb_next t), t3)) \<and>
         (\<forall>r t'. CreateSegmentIfNotExists F ctx name t = Returns (r, t') \<longrightarrow> active t' = name))"
    by (auto simp: CreateSegmentIfNotExists_def new_LDBSegment_object_def Let_def andThen_def
        split: outcome.splits option.splits dest!: compact_active)
  from existing compacted waits finished old fresh
    uncompact_returns [of t name _ ctx] uncompact_on_last_permit [of t name _ ctx]
  show ?thesis by blast
qed

lemma example_table_compacted_fields:
  "ldbSegments example_table_compacted = [(''02'', 1)] \<and>
   map fst (segments (segmentSet example_table_compacted)) = [''01''] \<and>
   cache (segmentSet example_table_compacted) = [] \<and>
   semaphore_cur (segmentSet example_table_compacted) = 0 \<and>
   semaphore_size (segmentSet example_table_compacted) = 2 \<and>
   ldb_next example_table_compacted = 2 \<and>
   active example_table_compacted = ''02'' \<and>
   SegmentCompactor example_table_compacted = example_compactor"
  by (simp add: example_run_defs table_defs example_defs)

lemma example_table_one_permit_fields:
  "ldbSegments example_table_one_permit = [(''02'', 1)] \<and>
   map fst (segments (segmentSet example_table_one_permit)) = [''01''] \<and>
   cache (segmentSet example_table_one_permit) = [] \<and>
   semaphore_cur (segmentSet example_table_one_permit) = 0 \<and>
   semaphore_size (segmentSet example_table_one_permit) = 1 \<and>
   ldb_next example_table_one_permit = 2 \<and>
   active example_table_one_permit = ''02''"
  by (simp add: example_run_defs table_defs example_defs)

theorem CreateSegmentIfNotExists_cases_example:
  "CreateSegmentIfNotExists example_fs False ''01'' example_table = Returns (Inr 0, example_table_01) \<and>
   CreateSegmentIfNotExists example_fs False ''01'' example_table_01 = Returns (Inr 0, example_table_01) \<and>
   CreateSegmentIfNotExists example_fs False ''00'' example_table_01 =
     Returns (Inl ErrImmutableSegment, example_table_01) \<and>
   map_of (ldbSegments example_table_compacted) ''01'' = None \<and>
   Contains ''01'' (segmentSet example_table_compacted) \<and>
   (\<exists>t'. CreateSegmentIfNotExists example_fs False ''01'' example_table_compacted =
            Returns (Inr 2, t') \<and>
      ldbSegments t' = [(''02'', 1), (''01'', 2)] \<and>
      segments (segmentSet t') = [] \<and>
      ldb_name (ldb_store t' 2) = ''01'' \<and>
      ldb_data (ldb_store t' 2) [1, 1] = Some [7] \<and>
      ldb_open (ldb_store t' 2) \<and>
      active t' = ''02'') \<and>
   CreateSegmentIfNotExists example_fs False ''01'' example_table_one_permit = Blocks"
proof -
  have first: "CreateSegmentIfNotExists example_fs False ''01'' example_table = Returns (Inr 0, example_table_01) \<and>
   CreateSegmentIfNotExists example_fs False ''01'' example_table_01 = Returns (Inr 0, example_table_01) \<and>
   CreateSegmentIfNotExists example_fs False ''00'' example_table_01 =
     Returns (Inl ErrImmutableSegment, example_table_01)"
    using CreateSegmentIfNotExists_cases [of example_table "''01''" example_fs False]
      CreateSegmentIfNotExists_cases [of example_table_01 "''01''" example_fs False]
      CreateSegmentIfNotExists_cases [of example_table_01 "''00''" example_fs False]
    by (simp add: example_table_def example_table_01_def example_fs_def NewSegmentSet_def Contains_def
        LDBSegment_Open_def NewLDBSegment_def SegmentPath_def filepath_Join_def compact_def
        ldbSegmentSlice_def andThen_def)
  note f = example_table_compacted_fields
  have absent: "map_of (ldbSegments example_table_compacted) ''01'' = None"
    by (simp add: f)
  have held: "Contains ''01'' (segmentSet example_table_compacted)"
    by (simp add: example_run_defs table_defs example_defs)
  obtain g where gs: "segments (segmentSet example_table_compacted) = [(''01'', g)]"
    and og: "OpenFunc g = Some None" and ng: "NameFunc g = ''01''"
    and dg: "fst (GetFunc g [1, 1]) = Some [7]"
    by (simp add: example_run_defs table_defs example_defs)
  have g: "map_of (cache (segmentSet example_table_compacted)) ''01'' = None \<and>
           map_of (segments (segmentSet example_table_compacted)) ''01'' = Some g"
    by (simp add: f gs)
  obtain s where s: "UncompactSegmentFunc (SegmentCompactor example_table_compacted) False
                       (Name example_table_compacted) (Some g) = Inr s"
    and ns: "ldb_name s = ''01''" and ds: "ldb_data s [1, 1] = Some [7]" and os: "ldb_open s"
    by (simp add: f example_compactor_def ng dg)
  from CreateSegmentIfNotExists_cases [of example_table_compacted "''01''" example_fs False]
    absent held g og s
  have "\<exists>t'. CreateSegmentIfNotExists example_fs False ''01'' example_table_compacted =
            Returns (Inr 2, t') \<and>
      ldbSegments t' = [(''02'', 1), (''01'', 2)] \<and>
      segments (segmentSet t') = [] \<and>
      ldb_name (ldb_store t' 2) = ''01'' \<and>
      ldb_data (ldb_store t' 2) [1, 1] = Some [7] \<and>
      ldb_open (ldb_store t' 2) \<and>
      active t' = ''02''"
    using ns ds os by (auto simp: f gs)
  moreover
  note h = example_table_one_permit_fields
  have absent1: "map_of (ldbSegments example_table_one_permit) ''01'' = None"
    by (simp add: h)
  have held1: "Contains ''01'' (segmentSet example_table_one_permit)"
    by (simp add: example_run_defs table_defs example_defs)
  obtain g1 where gs1: "segments (segmentSet example_table_one_permit) = [(''01'', g1)]"
    and og1: "OpenFunc g1 = Some None"
    by (simp add: example_run_defs table_defs example_defs)
  have g1: "map_of (cache (segmentSet example_table_one_permit)) ''01'' = None \<and>
            map_of (segments (segmentSet example_table_one_permit)) ''01'' = Some g1"
    by (simp add: h gs1)
  have c1: "SegmentCompactor example_table_one_permit = example_compactor"
    by (simp add: example_run_defs table_defs example_defs)
  obtain s1 where s1: "UncompactSegmentFunc (SegmentCompactor example_table_one_permit) False
                       (Name example_table_one_permit) (Some g1) = Inr s1"
    by (simp add: c1 example_compactor_def)
  from CreateSegmentIfNotExists_cases [of example_table_one_permit "''01''" example_fs False]
    absent1 held1 g1 og1 s1
  have "CreateSegmentIfNotExists example_fs False ''01'' example_table_one_permit = Blocks"
    by (auto simp: h)
  ultimately show ?thesis
    using first absent held by simp
qed

text \<open>
  C3 fails where one segment may be open at a time, a capacity that \<^verbatim>\<open>NewSegmentSet\<close>
  provides for: \<^verbatim>\<open>uncompact\<close> keeps the permit of its \<^verbatim>\<open>Acquire\<close> until it returns,
  and \<^verbatim>\<open>Remove\<close>, which it calls before that, waits for a permit of its own. In the
  example table the segment \<open>01\<close> has been compacted and no permit is held; creating the
  segment again, and so a \<^verbatim>\<open>Put\<close> into it, never returns.
\<close>

theorem uncompact_blocks_on_the_only_permit:
  "MaxOpenSegmentCount example_table_one_permit = 1 \<and>
   map_of (ldbSegments example_table_one_permit) ''01'' = None \<and>
   Contains ''01'' (segmentSet example_table_one_permit) \<and>
   semaphore_cur (segmentSet example_table_one_permit) = 0 \<and>
   semaphore_size (segmentSet example_table_one_permit) = 1 \<and>
   CreateSegmentIfNotExists example_fs context_TODO ''01'' example_table_one_permit = Blocks \<and>
   Put example_fs [1, 2] (Some [9]) example_table_one_permit = Blocks"
  by (simp add: example_run_defs table_defs example_defs)

section \<open>Properties of the state database\<close>

subsection \<open>Preimages\<close>

text \<open>
  C10. When a preimage is already recorded for a hash, \<^verbatim>\<open>AddPreimage\<close> for that hash
  returns the database as it was, whatever bytes it is given: the journal is the same and
  the recorded preimage stays.
\<close>

theorem AddPreimage_known_hash:
  assumes "preimages s h = Some q"
  shows "AddPreimage h p s = s \<and> journal (AddPreimage h p s) = journal s \<and>
         preimages (AddPreimage h p s) h = Some q"
  using assms by (simp add: AddPreimage_def)

theorem AddPreimage_known_hash_example:
  "AddPreimage 3 (Some [9]) (AddPreimage 3 (Some [1, 2]) example_statedb) =
     AddPreimage 3 (Some [1, 2]) example_statedb \<and>
   preimages (AddPreimage 3 (Some [9]) (AddPreimage 3 (Some [1, 2]) example_statedb)) 3 =
     Some [1, 2]"
proof -
  have known: "preimages (AddPreimage 3 (Some [1, 2]) example_statedb) 3 = Some [1, 2]"
    by (simp add: AddPreimage_def example_statedb_def New_def append_journal_def slice_bytes_def)
  from AddPreimage_known_hash [OF known, of "Some [9]"] known show ?thesis by simp
qed

end
